(* ===== verification/Prelude.thy ===== *)
theory Prelude
  imports Main "HOL-Library.Word" "HOL-Library.Multiset" "HOL-Library.AList"
begin

text \<open>
  Shared vocabulary of the development: the Python exceptions the modelled code can raise, results
  of pure code (\<open>py_error + 'a\<close>), outcomes of code that mutates a state before it may raise
  (\<open>(py_error + 'a) \<times> 's\<close>: the mutations made before the exception survive it), byte strings,
  slices and dictionaries (insertion-ordered association lists, as Python's are), and the lemma
  collections the component theories fill.
\<close>

section \<open>Python values and exceptions\<close>

datatype py_error =
    StructError        \<comment> \<open>\<open>struct.error\<close>\<close>
  | IndexError
  | KeyError
  | ZeroDivisionError
  | RuntimeError
  | ValueError
  | IOError            \<comment> \<open>a file that cannot be opened or read\<close>

type_synonym byte = "8 word"
type_synonym bytes = "byte list"
type_synonym 'a result = "py_error + 'a"
type_synonym ('a, 's) outcome = "(py_error + 'a) \<times> 's"

named_theorems outcome_simps "rewrite rules for results and outcomes"
named_theorems frame "fields an operation leaves alone"

subsection \<open>Sequencing\<close>

definition bind_result :: "'a result \<Rightarrow> ('a \<Rightarrow> 'b result) \<Rightarrow> 'b result" where
  "bind_result r k = (case r of Inl e \<Rightarrow> Inl e | Inr a \<Rightarrow> k a)"

definition and_then :: "('a, 's) outcome \<Rightarrow> ('a \<Rightarrow> 's \<Rightarrow> ('b, 's) outcome) \<Rightarrow> ('b, 's) outcome" where
  "and_then r k = (case fst r of Inl e \<Rightarrow> (Inl e, snd r) | Inr a \<Rightarrow> k a (snd r))"

definition lift_result :: "'a result \<Rightarrow> 's \<Rightarrow> ('a, 's) outcome" where
  "lift_result r s = (r, s)"

lemma bind_result_simps [simp, outcome_simps]:
  "bind_result (Inl e) k = Inl e"
  "bind_result (Inr a) k = k a"
  by (simp_all add: bind_result_def)

lemma bind_result_Inr [outcome_simps]:
  "bind_result r k = Inr b \<longleftrightarrow> (\<exists>a. r = Inr a \<and> k a = Inr b)"
  by (cases r) auto

lemma and_then_simps [simp, outcome_simps]:
  "and_then (Inl e, s) k = (Inl e, s)"
  "and_then (Inr a, s) k = k a s"
  by (simp_all add: and_then_def)

lemma lift_result_simps [simp, outcome_simps]:
  "lift_result (Inl e) s = (Inl e, s)"
  "lift_result (Inr a) s = (Inr a, s)"
  by (simp_all add: lift_result_def)

lemma and_then_Inr [outcome_simps]:
  "and_then r k = (Inr b, s') \<longleftrightarrow> (\<exists>a s. r = (Inr a, s) \<and> k a s = (Inr b, s'))"
  by (cases r; cases "fst r") auto

text \<open>A relation between the state before and after that every part keeps, the whole keeps.\<close>

lemma and_then_rel:
  assumes "R s0 (snd r)"
    and "\<And>a. fst r = Inr a \<Longrightarrow> R s0 (snd (k a (snd r)))"
  shows "R s0 (snd (and_then r k))"
  using assms by (auto simp: and_then_def split: sum.splits)

lemma snd_lift_result [simp]: "snd (lift_result r s) = s"
  by (simp add: lift_result_def)

section \<open>Slices and indexing\<close>

definition py_slice :: "nat \<Rightarrow> nat \<Rightarrow> 'a list \<Rightarrow> 'a list" where
  \<comment> \<open>\<open>xs[a:b]\<close> with \<open>0 \<le> a \<le> b\<close>: Python truncates at the end of the list.\<close>
  "py_slice a b xs = take (b - a) (drop a xs)"

definition py_index :: "'a list \<Rightarrow> nat \<Rightarrow> 'a result" where
  "py_index xs i = (if i < length xs then Inr (xs ! i) else Inl IndexError)"

lemma length_slice: "length (py_slice a b xs) = min (b - a) (length xs - a)"
  by (simp add: py_slice_def)

lemma length_slice_in [simp]: "b \<le> length xs \<Longrightarrow> length (py_slice a b xs) = b - a"
  by (simp add: py_slice_def)

lemma slice_append_left: "b \<le> length xs \<Longrightarrow> py_slice a b (xs @ ys) = py_slice a b xs"
  by (auto simp: py_slice_def)

lemma py_index_in [simp]: "i < length xs \<Longrightarrow> py_index xs i = Inr (xs ! i)"
  by (simp add: py_index_def)

section \<open>Dictionaries\<close>

type_synonym ('k, 'v) dict = "('k \<times> 'v) list"

abbreviation dict_get :: "('k, 'v) dict \<Rightarrow> 'k \<Rightarrow> 'v option" where
  "dict_get \<equiv> map_of"

abbreviation dict_set :: "'k \<Rightarrow> 'v \<Rightarrow> ('k, 'v) dict \<Rightarrow> ('k, 'v) dict" where
  "dict_set \<equiv> AList.update"

abbreviation dict_del :: "'k \<Rightarrow> ('k, 'v) dict \<Rightarrow> ('k, 'v) dict" where
  "dict_del \<equiv> AList.delete"

locale dictionary =
  fixes get :: "'d \<Rightarrow> 'k \<Rightarrow> 'v option"
    and put :: "'k \<Rightarrow> 'v \<Rightarrow> 'd \<Rightarrow> 'd"
    and del :: "'k \<Rightarrow> 'd \<Rightarrow> 'd"
    and empty :: "'d"
  assumes get_put: "get (put k v d) = (get d)(k \<mapsto> v)"
    and get_del: "get (del k d) = (get d)(k := None)"
    and empty_iff: "d = empty \<longleftrightarrow> dom (get d) = {}"
    and finite_dom_get: "finite (dom (get d))"
begin

lemma dom_put: "dom (get (put k v d)) = insert k (dom (get d))"
  by (simp add: get_put)

lemma dom_del: "dom (get (del k d)) = dom (get d) - {k}"
  by (simp add: get_del)

end

lemma restrict_map_id: "dom m \<subseteq> A \<Longrightarrow> m |` A = m"
  by (auto simp: restrict_map_def fun_eq_iff) (metis domIff subsetD)

lemma map_of_dom_empty: "d = [] \<longleftrightarrow> dom (map_of d) = {}"
  by (cases d) auto

interpretation alist: dictionary map_of AList.update AList.delete "[]"
proof unfold_locales
  show "d = [] \<longleftrightarrow> dom (map_of d) = {}" for d :: "('a \<times> 'b) list"
    by (rule map_of_dom_empty)
qed (simp_all add: AList.update_conv' AList.delete_conv' finite_dom_map_of)

end
