(* ===== verification/Py_Struct.thy ===== *)
theory Py_Struct
  imports Prelude
begin

text \<open>
  The part of Python's \<open>struct\<close> module the repository uses: \<open>struct.pack\<close> and
  \<open>struct.unpack\<close> with the prefixes \<open><\<close> and \<open>>\<close> (standard sizes, no alignment) and the
  unsigned codes \<open>B\<close>, \<open>H\<close> and \<open>I\<close>. A value out of the code's range, a wrong number of
  values and a buffer of the wrong size raise \<open>struct.error\<close>. The theory proves that packing and
  unpacking are inverse to each other and fixes the sizes; the interface is the locale
  \<open>codec\<close>, which the packet formats and the file and socket framings interpret.
\<close>

section \<open>Model\<close>

datatype byteorder = Little | Big
datatype fmt = FB | FH | FI

fun fmt_size :: "fmt \<Rightarrow> nat" where
  "fmt_size FB = 1"
| "fmt_size FH = 2"
| "fmt_size FI = 4"

definition calcsize :: "fmt list \<Rightarrow> nat" where
  "calcsize fs = sum_list (map fmt_size fs)"

fun le_bytes :: "nat \<Rightarrow> int \<Rightarrow> bytes" where
  "le_bytes 0 v = []"
| "le_bytes (Suc n) v = word_of_int v # le_bytes n (v div 256)"

fun le_value :: "bytes \<Rightarrow> int" where
  "le_value [] = 0"
| "le_value (b # bs) = uint b + 256 * le_value bs"

definition in_range :: "fmt \<Rightarrow> int \<Rightarrow> bool" where
  "in_range f v \<longleftrightarrow> 0 \<le> v \<and> v < 256 ^ fmt_size f"

definition pack_int :: "byteorder \<Rightarrow> fmt \<Rightarrow> int \<Rightarrow> bytes" where
  "pack_int bo f v =
     (case bo of Little \<Rightarrow> le_bytes (fmt_size f) v | Big \<Rightarrow> rev (le_bytes (fmt_size f) v))"

definition unpack_int :: "byteorder \<Rightarrow> bytes \<Rightarrow> int" where
  "unpack_int bo bs = (case bo of Little \<Rightarrow> le_value bs | Big \<Rightarrow> le_value (rev bs))"

fun struct_pack :: "byteorder \<Rightarrow> fmt list \<Rightarrow> int list \<Rightarrow> bytes result" where
  "struct_pack bo [] [] = Inr []"
| "struct_pack bo (f # fs) (v # vs) =
     (if in_range f v
      then bind_result (struct_pack bo fs vs) (\<lambda>bs. Inr (pack_int bo f v @ bs))
      else Inl StructError)"
| "struct_pack bo _ _ = Inl StructError"

fun unpack_fields :: "byteorder \<Rightarrow> fmt list \<Rightarrow> bytes \<Rightarrow> int list" where
  "unpack_fields bo [] bs = []"
| "unpack_fields bo (f # fs) bs =
     unpack_int bo (take (fmt_size f) bs) # unpack_fields bo fs (drop (fmt_size f) bs)"

definition struct_unpack :: "byteorder \<Rightarrow> fmt list \<Rightarrow> bytes \<Rightarrow> int list result" where
  "struct_unpack bo fs bs =
     (if length bs = calcsize fs then Inr (unpack_fields bo fs bs) else Inl StructError)"

text \<open>\<open>struct.unpack(fmt, buf)[0]\<close> for a format of one code.\<close>

definition unpack1 :: "byteorder \<Rightarrow> fmt \<Rightarrow> bytes \<Rightarrow> int result" where
  "unpack1 bo f bs = bind_result (struct_unpack bo [f] bs) (\<lambda>vs. py_index vs 0)"

section \<open>The interface: an encoder with a decoder that inverts it\<close>

locale codec =
  fixes enc :: "'a \<Rightarrow> bytes result"
    and dec :: "bytes \<Rightarrow> 'a result"
  assumes dec_enc: "enc x = Inr bs \<Longrightarrow> dec bs = Inr x"
begin

lemma enc_inj: "enc x = Inr bs \<Longrightarrow> enc y = Inr bs \<Longrightarrow> x = y"
  by (auto dest!: dec_enc)

end

text \<open>A codec whose decoder accepts exactly the encodings.\<close>

locale exact_codec = codec +
  assumes enc_dec: "dec bs = Inr x \<Longrightarrow> enc x = Inr bs"
begin

lemma enc_iff_dec: "enc x = Inr bs \<longleftrightarrow> dec bs = Inr x"
  using dec_enc enc_dec by blast

lemma dec_inj: "dec bs = Inr x \<Longrightarrow> dec cs = Inr x \<Longrightarrow> bs = cs"
  by (auto dest!: enc_dec)

end

section \<open>Facts about single integers\<close>

lemma fmt_size_pos [simp]: "0 < fmt_size f"
  by (cases f) auto

lemma length_le_bytes [simp]: "length (le_bytes n v) = n"
  by (induction n arbitrary: v) auto

lemma le_value_bounds: "0 \<le> le_value bs \<and> le_value bs < 256 ^ length bs"
proof (induction bs)
  case Nil
  then show ?case by simp
next
  case (Cons b bs)
  have "uint b < 256" and "0 \<le> uint b"
    using uint_lt2p [of b] by auto
  with Cons show ?case by auto
qed

lemma le_value_nonneg [simp]: "0 \<le> le_value bs"
  using le_value_bounds by blast

lemma le_value_le_bytes: "0 \<le> v \<Longrightarrow> v < 256 ^ n \<Longrightarrow> le_value (le_bytes n v) = v"
proof (induction n arbitrary: v)
  case 0
  then show ?case by simp
next
  case (Suc n)
  have "v div 256 < 256 ^ n"
    using Suc.prems by (simp add: div_less_iff_less_mult mult.commute)
  with Suc have "le_value (le_bytes n (v div 256)) = v div 256"
    by (simp add: pos_imp_zdiv_nonneg_iff)
  moreover have "uint (word_of_int v :: byte) = v mod 256"
    by (simp add: uint_word_of_int)
  ultimately show ?case
    by simp
qed

lemma byte_256 [simp]: "(256 :: byte) = 0"
  by (simp add: word_uint_eq_iff)

lemma le_bytes_le_value: "le_bytes (length bs) (le_value bs) = bs"
proof (induction bs)
  case Nil
  then show ?case by simp
next
  case (Cons b bs)
  have b: "0 \<le> uint b" "uint b < 256"
    using uint_lt2p [of b] by auto
  have "(word_of_int (uint b + 256 * le_value bs) :: byte) = word_of_int (uint b)"
    by (simp add: byte_256)
  moreover have "(uint b + 256 * le_value bs) div 256 = le_value bs"
    using b by simp
  ultimately show ?case
    using Cons by simp
qed

lemma length_pack_int [simp]: "length (pack_int bo f v) = fmt_size f"
  by (cases bo) (simp_all add: pack_int_def)

lemma unpack_int_pack_int: "in_range f v \<Longrightarrow> unpack_int bo (pack_int bo f v) = v"
  by (cases bo) (simp_all add: pack_int_def unpack_int_def in_range_def le_value_le_bytes)

lemma pack_int_unpack_int: "length bs = fmt_size f \<Longrightarrow> pack_int bo f (unpack_int bo bs) = bs"
  using le_bytes_le_value [of bs] le_bytes_le_value [of "rev bs"]
  by (cases bo) (simp_all add: pack_int_def unpack_int_def)

lemma in_range_unpack_int: "length bs = fmt_size f \<Longrightarrow> in_range f (unpack_int bo bs)"
  using le_value_bounds [of bs] le_value_bounds [of "rev bs"]
  by (cases bo) (auto simp: in_range_def unpack_int_def)

section \<open>Facts about whole formats\<close>

lemma calcsize_simps [simp]:
  "calcsize [] = 0" "calcsize (f # fs) = fmt_size f + calcsize fs"
  by (simp_all add: calcsize_def)

lemma struct_pack_Inr_iff:
  "(\<exists>bs. struct_pack bo fs vs = Inr bs) \<longleftrightarrow> list_all2 in_range fs vs"
  by (induction bo fs vs rule: struct_pack.induct) (auto simp: bind_result_Inr)

lemma struct_pack_error: "struct_pack bo fs vs = Inl e \<Longrightarrow> e = StructError"
  by (induction bo fs vs arbitrary: e rule: struct_pack.induct)
    (auto simp: bind_result_def split: if_splits sum.splits)

lemma struct_pack_out_of_range:
  "\<not> list_all2 in_range fs vs \<Longrightarrow> struct_pack bo fs vs = Inl StructError"
  using struct_pack_Inr_iff [of bo fs vs] struct_pack_error [of bo fs vs]
  by (cases "struct_pack bo fs vs") auto

lemma length_struct_pack: "struct_pack bo fs vs = Inr bs \<Longrightarrow> length bs = calcsize fs"
  by (induction bo fs vs arbitrary: bs rule: struct_pack.induct)
    (auto simp: bind_result_Inr split: if_splits)

lemma unpack_fields_pack: "struct_pack bo fs vs = Inr bs \<Longrightarrow> unpack_fields bo fs bs = vs"
  by (induction bo fs vs arbitrary: bs rule: struct_pack.induct)
    (auto simp: bind_result_Inr unpack_int_pack_int split: if_splits)

lemma struct_unpack_pack: "struct_pack bo fs vs = Inr bs \<Longrightarrow> struct_unpack bo fs bs = Inr vs"
  by (simp add: struct_unpack_def length_struct_pack unpack_fields_pack)

lemma struct_pack_fields:
  "length bs = calcsize fs \<Longrightarrow> struct_pack bo fs (unpack_fields bo fs bs) = Inr bs"
  by (induction bo fs bs rule: unpack_fields.induct)
    (auto simp: in_range_unpack_int pack_int_unpack_int)

lemma struct_pack_unpack: "struct_unpack bo fs bs = Inr vs \<Longrightarrow> struct_pack bo fs vs = Inr bs"
  by (auto simp: struct_unpack_def struct_pack_fields split: if_splits)

interpretation struct_codec: exact_codec "struct_pack bo fs" "struct_unpack bo fs" for bo fs
  by unfold_locales (auto intro: struct_unpack_pack struct_pack_unpack)

lemma unpack1_eq: "length bs = fmt_size f \<Longrightarrow> unpack1 bo f bs = Inr (unpack_int bo bs)"
  by (simp add: unpack1_def struct_unpack_def)

lemma unpack1_wrong_size: "length bs \<noteq> fmt_size f \<Longrightarrow> unpack1 bo f bs = Inl StructError"
  by (simp add: unpack1_def struct_unpack_def)

end
