(* ===== verification/Ludp_Wire.thy ===== *)
theory Ludp_Wire
  imports Py_Struct
begin

text \<open>
  The LUDP wire format: the protocol constants and the data packet of \<open>sw/ludp_host.py\<close>, the
  packet builders \<open>_build_cmd\<close>, \<open>_build_credit\<close> and \<open>_build_nack\<close>, the header parser at
  the start of \<open>_handle_data\<close>, and the header as the FPGA latches it from two 64-bit beats
  (\<open>rtl/ludp_protocol_rx.sv\<close>). Shown: every control packet has 16 bytes, is built exactly when
  its fields fit, reads back, and is latched by the FPGA field by field.
\<close>

unbundle bit_operations_syntax

section \<open>Constants\<close>

definition LUDP_PORT :: int where "LUDP_PORT = 1234"
definition LUDP_MAGIC :: int where "LUDP_MAGIC = 0xDA01"

definition PKT_DATA :: int where "PKT_DATA = 0x01"
definition PKT_CMD :: int where "PKT_CMD = 0x02"
definition PKT_NACK :: int where "PKT_NACK = 0x03"
definition PKT_CMD_ACK :: int where "PKT_CMD_ACK = 0x04"
definition PKT_CMD_CPL :: int where "PKT_CMD_CPL = 0x05"
definition PKT_CREDIT :: int where "PKT_CREDIT = 0x06"

definition CMD_START :: int where "CMD_START = 0x0001"
definition CMD_STOP :: int where "CMD_STOP = 0x0002"
definition CMD_READ_REG :: int where "CMD_READ_REG = 0x0010"
definition CMD_WRITE_REG :: int where "CMD_WRITE_REG = 0x0011"

definition LUDP_HDR_LEN :: nat where "LUDP_HDR_LEN = 16"
definition DEFAULT_WINDOW_SIZE :: int where "DEFAULT_WINDOW_SIZE = 256"
definition DEFAULT_CREDIT_INTERVAL :: int where "DEFAULT_CREDIT_INTERVAL = 8"

lemmas ludp_consts = LUDP_PORT_def LUDP_MAGIC_def PKT_DATA_def PKT_CMD_def PKT_NACK_def
  PKT_CMD_ACK_def PKT_CMD_CPL_def PKT_CREDIT_def CMD_START_def CMD_STOP_def CMD_READ_REG_def
  CMD_WRITE_REG_def LUDP_HDR_LEN_def DEFAULT_WINDOW_SIZE_def DEFAULT_CREDIT_INTERVAL_def

section \<open>Data packets\<close>

record LudpDataPacket =
  magic :: int
  pkt_type :: int
  flags :: int
  seq_num :: int
  payload_len :: int
  timestamp :: int
  payload :: bytes

definition is_retransmit :: "LudpDataPacket \<Rightarrow> bool" where
  "is_retransmit p \<longleftrightarrow> flags p AND 0x01 \<noteq> 0"

definition parse_data :: "bytes \<Rightarrow> LudpDataPacket result" where
  "parse_data data =
     bind_result (unpack1 Little FH (py_slice 0 2 data)) (\<lambda>m.
     bind_result (py_index data 2) (\<lambda>t.
     bind_result (py_index data 3) (\<lambda>f.
     bind_result (unpack1 Little FI (py_slice 4 8 data)) (\<lambda>s.
     bind_result (unpack1 Little FH (py_slice 8 10 data)) (\<lambda>l.
     bind_result (unpack1 Little FI (py_slice 10 14 data)) (\<lambda>ts.
     Inr \<lparr>magic = m, pkt_type = uint t, flags = uint f, seq_num = s, payload_len = l,
          timestamp = ts, payload = drop LUDP_HDR_LEN data\<rparr>))))))"

section \<open>Control packets\<close>

definition header_fmt :: "fmt list" where
  \<comment> \<open>the format string \<open><HBBIHIH\<close>\<close>
  "header_fmt = [FH, FB, FB, FI, FH, FI, FH]"

text \<open>\<open>_build_cmd\<close> reads and bumps \<open>self.next_cmd_id\<close> when no \<open>cmd_id\<close> is given, so its
  state is that counter; the bump stays when the packing raises.\<close>

definition build_cmd ::
    "int \<Rightarrow> int \<Rightarrow> int \<Rightarrow> int \<Rightarrow> int option \<Rightarrow> int \<Rightarrow> (bytes, int) outcome" where
  "build_cmd opcode arg1 arg2 fl cmd_id next_id =
     (let (cid, next_id') = (case cmd_id of None \<Rightarrow> (next_id, next_id + 1)
                                          | Some c \<Rightarrow> (c, next_id))
      in (struct_pack Little header_fmt [LUDP_MAGIC, PKT_CMD, fl, cid, opcode, arg1, arg2],
          next_id'))"

definition build_credit :: "int \<Rightarrow> bytes result" where
  "build_credit abs_credit =
     struct_pack Little header_fmt [LUDP_MAGIC, PKT_CREDIT, 0x00, abs_credit, 0, 0, 0]"

definition build_nack :: "int \<Rightarrow> int \<Rightarrow> bytes result" where
  "build_nack miss_seq cnt =
     struct_pack Little header_fmt [LUDP_MAGIC, PKT_NACK, 0x00, miss_seq, cnt, 0, 0]"

section \<open>The header at the FPGA\<close>

text \<open>
  The receive path latches the header from two beats of the 64-bit stream; byte 0 of a beat is
  bits 7 to 0.
\<close>

record rx_regs =
  rx_magic_reg :: "16 word"
  rx_type_reg :: "8 word"
  rx_flags_reg :: "8 word"
  rx_seq_reg :: "32 word"
  rx_opcode_reg :: "16 word"
  rx_arg1_reg :: "32 word"
  rx_arg2_reg :: "16 word"

definition tdata :: "bytes \<Rightarrow> 64 word" where
  "tdata beat = word_of_int (le_value beat)"

definition rx_beat0 :: "64 word \<Rightarrow> rx_regs \<Rightarrow> rx_regs" where
  "rx_beat0 w r = r\<lparr>rx_magic_reg := ucast w, rx_type_reg := ucast (drop_bit 16 w),
     rx_flags_reg := ucast (drop_bit 24 w), rx_seq_reg := ucast (drop_bit 32 w)\<rparr>"

definition rx_beat1 :: "64 word \<Rightarrow> rx_regs \<Rightarrow> rx_regs" where
  "rx_beat1 w r = r\<lparr>rx_opcode_reg := ucast w, rx_arg1_reg := ucast (drop_bit 16 w),
     rx_arg2_reg := ucast (drop_bit 48 w)\<rparr>"

definition rx_header :: "bytes \<Rightarrow> rx_regs \<Rightarrow> rx_regs" where
  "rx_header data r =
     rx_beat1 (tdata (py_slice 8 16 data)) (rx_beat0 (tdata (py_slice 0 8 data)) r)"

section \<open>Building\<close>

lemma calcsize_header [simp]: "calcsize header_fmt = 16"
  by (simp add: header_fmt_def)

lemma in_range_simps [simp]:
  "in_range FB v \<longleftrightarrow> 0 \<le> v \<and> v < 256"
  "in_range FH v \<longleftrightarrow> 0 \<le> v \<and> v < 65536"
  "in_range FI v \<longleftrightarrow> 0 \<le> v \<and> v < 4294967296"
  by (simp_all add: in_range_def)

lemma build_credit_ok:
  "0 \<le> c \<Longrightarrow> c < 2 ^ 32 \<Longrightarrow> \<exists>bs. build_credit c = Inr bs \<and> length bs = 16"
  using struct_pack_Inr_iff [of Little header_fmt "[LUDP_MAGIC, PKT_CREDIT, 0, c, 0, 0, 0]"]
    length_struct_pack [of Little header_fmt "[LUDP_MAGIC, PKT_CREDIT, 0, c, 0, 0, 0]"]
  by (fastforce simp: build_credit_def header_fmt_def ludp_consts)

lemma build_credit_error:
  "\<not> (0 \<le> c \<and> c < 2 ^ 32) \<Longrightarrow> build_credit c = Inl StructError"
  unfolding build_credit_def
  by (rule struct_pack_out_of_range) (auto simp: header_fmt_def ludp_consts)

lemma build_credit_eq: "build_credit c =
    (if 0 \<le> c \<and> c < 2 ^ 32
     then struct_pack Little header_fmt [LUDP_MAGIC, PKT_CREDIT, 0, c, 0, 0, 0]
     else Inl StructError)"
  using build_credit_error [of c] by (simp add: build_credit_def)

section \<open>Parsing\<close>

lemma parse_data_ok:
  assumes "LUDP_HDR_LEN \<le> length data"
  shows "parse_data data = Inr
    \<lparr>magic = le_value (py_slice 0 2 data), pkt_type = uint (data ! 2), flags = uint (data ! 3),
     seq_num = le_value (py_slice 4 8 data), payload_len = le_value (py_slice 8 10 data),
     timestamp = le_value (py_slice 10 14 data), payload = drop LUDP_HDR_LEN data\<rparr>"
  using assms by (simp add: parse_data_def unpack1_eq unpack_int_def LUDP_HDR_LEN_def)

lemma parse_data_seq_range:
  assumes "parse_data data = Inr p" and "LUDP_HDR_LEN \<le> length data"
  shows "0 \<le> seq_num p" and "seq_num p < 2 ^ 32"
  using assms le_value_bounds [of "py_slice 4 8 data"]
  by (auto simp: parse_data_ok LUDP_HDR_LEN_def)

lemma is_retransmit_odd: "is_retransmit p \<longleftrightarrow> odd (flags p)"
  by (simp add: is_retransmit_def and_one_eq odd_iff_mod_2_eq_one)

section \<open>What the FPGA latches\<close>

lemma le_value_append: "le_value (xs @ ys) = le_value xs + 256 ^ length xs * le_value ys"
  by (induction xs) (auto simp: algebra_simps)

lemma word_field:
  assumes "0 \<le> v" and "v < 2 ^ 64"
  shows "ucast (drop_bit n (word_of_int v :: 64 word)) = (word_of_int (v div 2 ^ n) :: 'b::len word)"
proof -
  have v: "uint (word_of_int v :: 64 word) = v"
    using assms by (simp add: uint_word_of_int)
  have "uint (drop_bit n (word_of_int v :: 64 word)) = drop_bit n (take_bit 64 v)"
    by (subst unsigned_drop_bit_eq) (simp add: v)
  also have "\<dots> = v div 2 ^ n"
    using assms by (simp add: take_bit_int_eq_self drop_bit_eq_div)
  finally show ?thesis
    by (simp only: ucast_eq)
qed

lemma tdata_fields:
  assumes "0 \<le> v" and "v < 2 ^ 64" and "le_value beat = v"
  shows "ucast (tdata beat) = (word_of_int v :: 'b::len word)"
    and "ucast (drop_bit n (tdata beat)) = (word_of_int (v div 2 ^ n) :: 'b::len word)"
  using word_field [OF assms(1,2), of 0] word_field [OF assms(1,2), of n] assms(3)
  by (simp_all add: tdata_def)

lemma header_bytes:
  assumes "struct_pack Little header_fmt [m, t, f, s, op, a1, a2] = Inr bs"
  shows "bs = (le_bytes 2 m @ le_bytes 1 t @ le_bytes 1 f @ le_bytes 4 s) @
              (le_bytes 2 op @ le_bytes 4 a1 @ le_bytes 2 a2)"
    and "0 \<le> m" "m < 65536" "0 \<le> t" "t < 256" "0 \<le> f" "f < 256" "0 \<le> s" "s < 4294967296"
    and "0 \<le> op" "op < 65536" "0 \<le> a1" "a1 < 4294967296" "0 \<le> a2" "a2 < 65536"
  using assms by (auto simp: header_fmt_def bind_result_Inr pack_int_def split: if_splits)

lemma word_of_int_mod: "(word_of_int a :: 'b::len word) = word_of_int b \<longleftrightarrow>
    a mod 2 ^ LENGTH('b) = b mod 2 ^ LENGTH('b)"
  by (simp add: word_uint_eq_iff uint_word_of_int)

lemma rx_header_pack:
  assumes "struct_pack Little header_fmt [m, t, f, s, op, a1, a2] = Inr bs"
  shows "rx_header bs r = r\<lparr>rx_magic_reg := word_of_int m, rx_type_reg := word_of_int t,
     rx_flags_reg := word_of_int f, rx_seq_reg := word_of_int s, rx_opcode_reg := word_of_int op,
     rx_arg1_reg := word_of_int a1, rx_arg2_reg := word_of_int a2\<rparr>"
proof -
  note h = header_bytes [OF assms]
  let ?lo = "m + 65536 * (t + 256 * (f + 256 * s))"
  let ?hi = "op + 65536 * (a1 + 4294967296 * a2)"
  have sl: "py_slice 0 8 bs = le_bytes 2 m @ le_bytes 1 t @ le_bytes 1 f @ le_bytes 4 s"
      "py_slice 8 16 bs = le_bytes 2 op @ le_bytes 4 a1 @ le_bytes 2 a2"
    by (simp_all only: h(1)) (simp_all add: py_slice_def)
  have v: "le_value (py_slice 0 8 bs) = ?lo" "le_value (py_slice 8 16 bs) = ?hi"
    unfolding sl using h(2-) by (simp_all add: le_value_append le_value_le_bytes del: le_bytes.simps)
  have b: "0 \<le> ?lo" "?lo < 2 ^ 64" "0 \<le> ?hi" "?hi < 2 ^ 64"
    using h(2-) by auto
  have d: "?lo div 2 ^ 16 = t + 256 * (f + 256 * s)" "?lo div 2 ^ 24 = f + 256 * s"
      "?lo div 2 ^ 32 = s" "?hi div 2 ^ 16 = a1 + 4294967296 * a2" "?hi div 2 ^ 48 = a2"
    using h(2-) by (simp_all; linarith)+
  have w: "(word_of_int ?lo :: 16 word) = word_of_int m"
      "(word_of_int (t + 256 * (f + 256 * s)) :: 8 word) = word_of_int t"
      "(word_of_int (f + 256 * s) :: 8 word) = word_of_int f"
      "(word_of_int ?hi :: 16 word) = word_of_int op"
      "(word_of_int (a1 + 4294967296 * a2) :: 32 word) = word_of_int a1"
    by (simp_all only: word_of_int_mod) (simp_all del: distrib_left_numeral distrib_right_numeral)
  show ?thesis
    unfolding rx_header_def rx_beat0_def rx_beat1_def
      tdata_fields [OF b(1,2) v(1)] tdata_fields [OF b(3,4) v(2)] d w
    by simp
qed

section \<open>Reading a header back\<close>

lemma header_slices:
  assumes "struct_pack Little header_fmt [m, t, f, s, op, a1, a2] = Inr bs"
  shows "length bs = 16"
    and "le_value (py_slice 0 2 (bs @ pl)) = m" and "uint ((bs @ pl) ! 2) = t"
    and "uint ((bs @ pl) ! 3) = f" and "le_value (py_slice 4 8 (bs @ pl)) = s"
    and "le_value (py_slice 8 10 (bs @ pl)) = op" and "le_value (py_slice 10 14 (bs @ pl)) = a1"
proof -
  note h = header_bytes [OF assms]
  show "length bs = 16" by (simp add: h(1))
  have b: "bs @ pl = le_bytes 2 m @ word_of_int t # word_of_int f # le_bytes 4 s @
      le_bytes 2 op @ le_bytes 4 a1 @ le_bytes 2 a2 @ pl"
    by (simp add: h(1))
  show "uint ((bs @ pl) ! 2) = t" and "uint ((bs @ pl) ! 3) = f"
    using h(2-) by (simp_all add: b nth_append uint_word_of_int del: le_bytes.simps)
  show "le_value (py_slice 0 2 (bs @ pl)) = m" and "le_value (py_slice 4 8 (bs @ pl)) = s"
    and "le_value (py_slice 8 10 (bs @ pl)) = op" and "le_value (py_slice 10 14 (bs @ pl)) = a1"
    unfolding b py_slice_def using h(2-)
    by (simp_all add: le_value_le_bytes del: le_bytes.simps)
qed

lemma parse_header:
  assumes "struct_pack Little header_fmt [m, t, f, s, op, a1, a2] = Inr bs"
  shows "parse_data (bs @ pl) = Inr \<lparr>magic = m, pkt_type = t, flags = f, seq_num = s,
     payload_len = op, timestamp = a1, payload = pl\<rparr>"
  using header_slices(1) [OF assms] header_slices(2-) [OF assms, of pl]
  by (subst parse_data_ok) (simp_all add: LUDP_HDR_LEN_def)

end
