(* ===== verification/Py_Heapq.thy ===== *)
theory Py_Heapq
  imports Prelude
begin

text \<open>
  Python's \<open>heapq\<close> as the host uses it: \<open>heappush\<close> and \<open>heappop\<close> on a list, with the
  library's own \<open>_siftdown\<close> and \<open>_siftup\<close>. The theory proves that both keep the heap
  property and the multiset of entries and that \<open>heappop\<close> returns the least entry, as an
  interpretation of the locale \<open>min_queue\<close>. The locale \<open>indexed_queue\<close> adds a
  dictionary: it is the contract of the host's reorder buffer, a queue of sequence numbers next to
  a dictionary with exactly those keys.
\<close>

section \<open>The interfaces\<close>

locale min_queue =
  fixes push :: "'q \<Rightarrow> 'k::linorder \<Rightarrow> 'q"
    and pop :: "'q \<Rightarrow> ('k \<times> 'q) result"
    and top :: "'q \<Rightarrow> 'k option"
    and items :: "'q \<Rightarrow> 'k multiset"
    and wf :: "'q \<Rightarrow> bool"
  assumes items_push: "wf q \<Longrightarrow> items (push q k) = add_mset k (items q)"
    and wf_push: "wf q \<Longrightarrow> wf (push q k)"
    and top_None: "wf q \<Longrightarrow> top q = None \<longleftrightarrow> items q = {#}"
    and top_Some: "wf q \<Longrightarrow> top q = Some k \<Longrightarrow> k = Min_mset (items q)"
    and pop_error: "wf q \<Longrightarrow> items q = {#} \<Longrightarrow> pop q = Inl IndexError"
    and pop_top: "wf q \<Longrightarrow> top q = Some k \<Longrightarrow>
      \<exists>q'. pop q = Inr (k, q') \<and> wf q' \<and> items q' = items q - {#k#}"
begin

lemma top_in: "wf q \<Longrightarrow> top q = Some k \<Longrightarrow> k \<in># items q"
  using top_None [of q] top_Some [of q k] by auto

lemma top_le: "wf q \<Longrightarrow> top q = Some k \<Longrightarrow> x \<in># items q \<Longrightarrow> k \<le> x"
  using top_Some [of q k] by simp

lemma pop_min:
  assumes "wf q" and "pop q = Inr (k, q')"
  shows "top q = Some k" and "wf q'" and "items q = add_mset k (items q')"
proof -
  from assms pop_error obtain k0 where k0: "top q = Some k0"
    using top_None [of q] by fastforce
  with assms pop_top [OF assms(1) k0] show "top q = Some k" by auto
  with assms pop_top [OF assms(1), of k] top_in [OF assms(1), of k]
  show "wf q'" and "items q = add_mset k (items q')" by auto
qed

end

text \<open>A queue of keys kept in step with a dictionary.\<close>

locale indexed_queue =
  min_queue push pop top items wf + dictionary get put del empty
  for push :: "'q \<Rightarrow> 'k::linorder \<Rightarrow> 'q" and pop top items wf
    and get :: "'d \<Rightarrow> 'k \<Rightarrow> 'v option" and put del empty
begin

definition tracks :: "'q \<Rightarrow> 'd \<Rightarrow> bool" where
  "tracks q d \<longleftrightarrow> wf q \<and> items q = mset_set (dom (get d))"

lemma tracks_push:
  "tracks q d \<Longrightarrow> get d k = None \<Longrightarrow> tracks (push q k) (put k v d)"
  by (simp add: tracks_def items_push wf_push dom_put finite_dom_get domIff
      mset_set.insert)

lemma tracks_overwrite:
  "tracks q d \<Longrightarrow> get d k \<noteq> None \<Longrightarrow> tracks q (put k v d)"
  by (simp add: tracks_def dom_put insert_absorb domIff)

lemma tracks_top:
  assumes "tracks q d" and "top q = Some k"
  shows "k \<in> dom (get d)" and "\<And>x. x \<in> dom (get d) \<Longrightarrow> k \<le> x"
  using assms top_in [of q k] top_le [of q k] finite_dom_get [of d]
  by (auto simp: tracks_def)

lemma tracks_top_None: "tracks q d \<Longrightarrow> top q = None \<longleftrightarrow> d = empty"
  using finite_dom_get [of d] top_None [of q] empty_iff [of d]
  by (auto simp: tracks_def mset_set_empty_iff)

lemma tracks_pop:
  assumes "tracks q d" and "top q = Some k"
  obtains q' v where "pop q = Inr (k, q')" and "get d k = Some v" and "tracks q' (del k d)"
proof -
  from assms pop_top [of q k] obtain q' where
    q': "pop q = Inr (k, q')" "wf q'" "items q' = items q - {#k#}"
    by (auto simp: tracks_def)
  moreover from assms tracks_top(1) have k: "k \<in> dom (get d)" by blast
  moreover have "mset_set (dom (get d)) - {#k#} = mset_set (dom (get d) - {k})"
    using k finite_dom_get by (simp add: mset_set_Diff)
  ultimately have "tracks q' (del k d)"
    using assms(1) by (simp add: tracks_def dom_del)
  with q' k that show thesis by blast
qed

end

section \<open>The library's algorithms\<close>

text \<open>
  \<open>_siftdown(heap, startpos, pos)\<close>: move the entry at \<open>pos\<close> towards the root while its
  parent is greater. The first function is the loop; it returns the list with the hole and the
  position of the hole.
\<close>

function siftdown_loop :: "'k::linorder list \<Rightarrow> nat \<Rightarrow> nat \<Rightarrow> 'k \<Rightarrow> 'k list \<times> nat" where
  "siftdown_loop heap startpos pos newitem =
     (if startpos < pos
      then let parentpos = (pos - 1) div 2; parent = heap ! parentpos
           in if newitem < parent
              then siftdown_loop (heap[pos := parent]) startpos parentpos newitem
              else (heap, pos)
      else (heap, pos))"
  by pat_completeness auto
termination
  by (relation "measure (\<lambda>(heap, startpos, pos, newitem). pos)") auto

declare siftdown_loop.simps [simp del]

definition siftdown :: "'k::linorder list \<Rightarrow> nat \<Rightarrow> nat \<Rightarrow> 'k list" where
  "siftdown heap startpos pos =
     (let newitem = heap ! pos; (heap', pos') = siftdown_loop heap startpos pos newitem
      in heap'[pos' := newitem])"

text \<open>\<open>_siftup(heap, pos)\<close>: move the hole to a leaf along the smaller children, then sift the
  saved entry down from there.\<close>

definition smaller_child :: "'k::linorder list \<Rightarrow> nat \<Rightarrow> nat" where
  "smaller_child heap pos =
     (let childpos = 2 * pos + 1; rightpos = childpos + 1
      in if rightpos < length heap \<and> \<not> heap ! childpos < heap ! rightpos
         then rightpos else childpos)"

lemma smaller_child_bounds:
  assumes "2 * pos + 1 < length heap"
  shows "pos < smaller_child heap pos" and "smaller_child heap pos < length heap"
    and "(smaller_child heap pos - 1) div 2 = pos"
  using assms by (auto simp: smaller_child_def Let_def)

function siftup_loop :: "'k::linorder list \<Rightarrow> nat \<Rightarrow> 'k list \<times> nat" where
  "siftup_loop heap pos =
     (if 2 * pos + 1 < length heap
      then siftup_loop (heap[pos := heap ! smaller_child heap pos]) (smaller_child heap pos)
      else (heap, pos))"
  by pat_completeness auto
termination
proof (relation "measure (\<lambda>(heap, pos). length heap - pos)", simp)
  fix heap :: "'k::linorder list" and pos
  assume "2 * pos + 1 < length heap"
  from smaller_child_bounds [OF this]
  show "((heap[pos := heap ! smaller_child heap pos], smaller_child heap pos), heap, pos)
      \<in> measure (\<lambda>(heap, pos). length heap - pos)"
    by simp
qed

declare siftup_loop.simps [simp del]

definition siftup :: "'k::linorder list \<Rightarrow> nat \<Rightarrow> 'k list" where
  "siftup heap pos =
     (let newitem = heap ! pos; (heap', pos') = siftup_loop heap pos
      in siftdown (heap'[pos' := newitem]) pos pos')"

definition heappush :: "'k::linorder list \<Rightarrow> 'k \<Rightarrow> 'k list" where
  "heappush heap item = (let heap' = heap @ [item] in siftdown heap' 0 (length heap' - 1))"

definition heappop :: "'k::linorder list \<Rightarrow> ('k \<times> 'k list) result" where
  "heappop heap =
     (if heap = [] then Inl IndexError
      else let lastelt = last heap; rest = butlast heap
           in if rest = [] then Inr (lastelt, rest)
              else let returnitem = rest ! 0
                   in Inr (returnitem, siftup (rest[0 := lastelt]) 0))"

text \<open>\<open>heap[0]\<close> behind the test \<open>while heap\<close>.\<close>

definition heap_top :: "'k list \<Rightarrow> 'k option" where
  "heap_top heap = (if heap = [] then None else Some (heap ! 0))"

section \<open>The heap property\<close>

definition is_heap :: "'k::linorder list \<Rightarrow> bool" where
  "is_heap h \<longleftrightarrow> (\<forall>i < length h. 0 < i \<longrightarrow> h ! ((i - 1) div 2) \<le> h ! i)"

text \<open>The heap property with a hole at \<open>p\<close>: it says nothing about the entry at \<open>p\<close>, and the
  parent of the hole is below the children of the hole.\<close>

definition hole_heap :: "'k::linorder list \<Rightarrow> nat \<Rightarrow> bool" where
  "hole_heap h p \<longleftrightarrow>
     (\<forall>i < length h. 0 < i \<longrightarrow> i \<noteq> p \<longrightarrow> (i - 1) div 2 \<noteq> p \<longrightarrow> h ! ((i - 1) div 2) \<le> h ! i) \<and>
     (0 < p \<longrightarrow> (\<forall>i < length h. 0 < i \<longrightarrow> (i - 1) div 2 = p \<longrightarrow> h ! ((p - 1) div 2) \<le> h ! i))"

definition below_children :: "'k::linorder \<Rightarrow> 'k list \<Rightarrow> nat \<Rightarrow> bool" where
  "below_children x h p \<longleftrightarrow> (\<forall>i < length h. 0 < i \<longrightarrow> (i - 1) div 2 = p \<longrightarrow> x \<le> h ! i)"

lemma parent_less [simp]: "0 < (i::nat) \<Longrightarrow> (i - 1) div 2 < i"
  by linarith

lemma hole_heapD:
  assumes "hole_heap h p"
  shows "i < length h \<Longrightarrow> 0 < i \<Longrightarrow> i \<noteq> p \<Longrightarrow> (i - 1) div 2 \<noteq> p \<Longrightarrow> h ! ((i - 1) div 2) \<le> h ! i"
    and "i < length h \<Longrightarrow> 0 < i \<Longrightarrow> (i - 1) div 2 = p \<Longrightarrow> 0 < p \<Longrightarrow> h ! ((p - 1) div 2) \<le> h ! i"
  using assms by (auto simp: hole_heap_def)

lemma hole_heap_fill [simp]: "hole_heap (h[p := x]) p \<longleftrightarrow> hole_heap h p"
  by (auto simp: hole_heap_def nth_list_update)

subsection \<open>Sifting towards the root\<close>

lemma siftdown_step:
  assumes "hole_heap h p" and "below_children x h p" and "0 < p" and "p < length h"
    and "x < h ! ((p - 1) div 2)"
  shows "hole_heap (h[p := h ! ((p - 1) div 2)]) ((p - 1) div 2)"
    and "below_children x (h[p := h ! ((p - 1) div 2)]) ((p - 1) div 2)"
proof -
  let ?q = "(p - 1) div 2"
  let ?h = "h[p := h ! ?q]"
  have qp: "?q < p" using assms(3) by simp
  have sibling: "h ! ?q \<le> h ! i" if "i < length h" "0 < i" "i \<noteq> p" "(i - 1) div 2 = ?q" for i
    using hole_heapD(1) [OF assms(1), of i] that qp by auto
  have below_q: "h ! ((?q - 1) div 2) \<le> h ! ?q" if "0 < ?q"
    using hole_heapD(1) [OF assms(1), of ?q] that qp assms(4) parent_less [OF that] by auto
  show "hole_heap ?h ?q"
    unfolding hole_heap_def
  proof (intro conjI allI impI)
    fix i assume "i < length ?h" "0 < i" "i \<noteq> ?q" "(i - 1) div 2 \<noteq> ?q"
    then show "?h ! ((i - 1) div 2) \<le> ?h ! i"
      using hole_heapD [OF assms(1), of i] assms(3,4) by (auto simp: nth_list_update)
  next
    fix i assume q: "0 < ?q" and "i < length ?h" "0 < i" "(i - 1) div 2 = ?q"
    then show "?h ! ((?q - 1) div 2) \<le> ?h ! i"
      using below_q [OF q] sibling [of i] parent_less [OF q] qp
      by (cases "i = p") (auto simp: nth_list_update)
  qed
  show "below_children x ?h ?q"
    unfolding below_children_def
  proof (intro allI impI)
    fix i assume "i < length ?h" "0 < i" "(i - 1) div 2 = ?q"
    then show "x \<le> ?h ! i"
      using sibling [of i] assms(4,5) by (cases "i = p") auto
  qed
qed

lemma mset_move_hole:
  assumes "p < length h" and "q < length h" and "p \<noteq> q"
  shows "mset ((h[p := h ! q])[q := x]) = mset (h[p := x])"
proof -
  have "(h[p := h ! q])[q := x] = (h[p := x])[p := h[p := x] ! q, q := h[p := x] ! p]"
    using assms by (simp add: list_update_swap)
  then show ?thesis
    using assms mset_swap [of q "h[p := x]" p] by simp
qed

lemma siftdown_loop_move:
  "s < p \<Longrightarrow> x < h ! ((p - 1) div 2) \<Longrightarrow> siftdown_loop h s p x =
     siftdown_loop (h[p := h ! ((p - 1) div 2)]) s ((p - 1) div 2) x"
  by (subst siftdown_loop.simps) (simp add: Let_def)

lemma siftdown_loop_stop:
  "\<not> (s < p \<and> x < h ! ((p - 1) div 2)) \<Longrightarrow> siftdown_loop h s p x = (h, p)"
  by (subst siftdown_loop.simps) (simp add: Let_def)

lemma siftdown_loop_spec:
  assumes "hole_heap h p" and "below_children x h p" and "p < length h"
    and "siftdown_loop h 0 p x = (h', p')"
  shows "is_heap (h'[p' := x]) \<and> mset (h'[p' := x]) = mset (h[p := x]) \<and> length h' = length h"
  using assms
proof (induction h "0::nat" p x rule: siftdown_loop.induct)
  case (1 h p x)
  let ?q = "(p - 1) div 2"
  show ?case
  proof (cases "0 < p \<and> x < h ! ?q")
    case True
    then have "siftdown_loop (h[p := h ! ?q]) 0 ?q x = (h', p')"
      using "1.prems"(4) by (simp add: siftdown_loop_move)
    moreover have "mset ((h[p := h ! ?q])[?q := x]) = mset (h[p := x])"
      using True "1.prems"(3) parent_less [of p] by (intro mset_move_hole) auto
    moreover have "?q < length h"
      using True "1.prems"(3) parent_less [of p] by linarith
    ultimately show ?thesis
      using "1.hyps" [of ?q "h ! ?q"] True siftdown_step [OF "1.prems"(1,2) _ "1.prems"(3)]
      by auto
  next
    case False
    then have "h' = h" and "p' = p"
      using "1.prems"(4) siftdown_loop_stop [of 0 p x h] by auto
    moreover have "is_heap (h[p := x])"
      unfolding is_heap_def
    proof (intro allI impI)
      fix i assume "i < length (h[p := x])" and "0 < i"
      then show "(h[p := x]) ! ((i - 1) div 2) \<le> (h[p := x]) ! i"
        using False "1.prems" hole_heapD(1) [OF "1.prems"(1), of i]
        by (auto simp: nth_list_update below_children_def)
    qed
    ultimately show ?thesis by simp
  qed
qed

lemma siftdown_spec:
  assumes "hole_heap h p" and "below_children (h ! p) h p" and "p < length h"
  shows "is_heap (siftdown h 0 p) \<and> mset (siftdown h 0 p) = mset h"
  using siftdown_loop_spec [OF assms]
  by (auto simp: siftdown_def Let_def split: prod.splits)

subsection \<open>Moving the hole to a leaf\<close>

lemma siftup_step:
  assumes "hole_heap h p" and "(c - 1) div 2 = p" and "0 < c" and "c < length h"
    and smaller: "\<And>i. i < length h \<Longrightarrow> 0 < i \<Longrightarrow> (i - 1) div 2 = p \<Longrightarrow> h ! c \<le> h ! i"
  shows "hole_heap (h[p := h ! c]) c"
  unfolding hole_heap_def
proof (intro conjI allI impI)
  have pc: "p < c" using assms(2,3) by auto
  fix i assume i: "i < length (h[p := h ! c])" "0 < i"
  { assume "i \<noteq> c" "(i - 1) div 2 \<noteq> c"
    then show "h[p := h ! c] ! ((i - 1) div 2) \<le> h[p := h ! c] ! i"
      using i hole_heapD(1) [OF assms(1), of i] hole_heapD(2) [OF assms(1), of c]
        smaller [of i] assms(2-4) parent_less [of i] pc
      by (cases "i = p"; cases "(i - 1) div 2 = p") (auto simp: nth_list_update) }
  { assume "(i - 1) div 2 = c"
    moreover from this have "c < i" using i by auto
    ultimately show "h[p := h ! c] ! ((c - 1) div 2) \<le> h[p := h ! c] ! i"
      using i hole_heapD(1) [OF assms(1), of i] assms(2) pc
      by (auto simp: nth_list_update) }
qed

lemma child_cases:
  assumes "0 < (i::nat)" and "(i - 1) div 2 = p"
  shows "i = 2 * p + 1 \<or> i = 2 * p + 2"
  using assms by linarith

lemma siftup_loop_spec:
  assumes "hole_heap h p" and "p < length h" and "siftup_loop h p = (h', p')"
  shows "hole_heap h' p' \<and> p' < length h' \<and> length h' = length h \<and> length h' \<le> 2 * p' + 1
    \<and> mset (h'[p' := x]) = mset (h[p := x])"
  using assms
proof (induction h p rule: siftup_loop.induct)
  case (1 h p)
  let ?c = "smaller_child h p"
  show ?case
  proof (cases "2 * p + 1 < length h")
    case True
    note c = smaller_child_bounds [OF True]
    have "hole_heap (h[p := h ! ?c]) ?c"
      using "1.prems"(1) c(3)
    proof (rule siftup_step)
      fix i assume "i < length h" "0 < i" "(i - 1) div 2 = p"
      then show "h ! ?c \<le> h ! i"
        using child_cases [of i p] by (auto simp: smaller_child_def Let_def not_less)
    qed (use c in auto)
    moreover have "siftup_loop (h[p := h ! ?c]) ?c = (h', p')"
      using True "1.prems"(3) by (simp add: siftup_loop.simps [of h p])
    moreover have "mset ((h[p := h ! ?c])[?c := x]) = mset (h[p := x])"
      using c "1.prems"(2) by (intro mset_move_hole) auto
    ultimately show ?thesis
      using "1.IH" [OF True] c by simp
  next
    case False
    with "1.prems" show ?thesis
      by (auto simp: siftup_loop.simps [of h p] Let_def)
  qed
qed

lemma siftup_spec:
  assumes "hole_heap h 0" and "h \<noteq> []"
  shows "is_heap (siftup h 0) \<and> mset (siftup h 0) = mset h"
proof -
  obtain h' p' where loop: "siftup_loop h 0 = (h', p')" by fastforce
  from siftup_loop_spec [OF assms(1) _ loop, of "h ! 0"] assms(2)
  have h': "hole_heap h' p'" "p' < length h'" "length h' \<le> 2 * p' + 1"
    "mset (h'[p' := h ! 0]) = mset h"
    by auto
  have "below_children (h'[p' := h ! 0] ! p') (h'[p' := h ! 0]) p'"
    using h'(3) by (auto simp: below_children_def dest: child_cases)
  with h' have "is_heap (siftdown (h'[p' := h ! 0]) 0 p')
      \<and> mset (siftdown (h'[p' := h ! 0]) 0 p') = mset (h'[p' := h ! 0])"
    by (intro siftdown_spec) auto
  with h' loop show ?thesis
    by (simp add: siftup_def)
qed

section \<open>Correctness of the operations\<close>

lemma is_heap_root_le:
  assumes "is_heap h" and "i < length h"
  shows "h ! 0 \<le> h ! i"
  using assms(2)
proof (induction i rule: less_induct)
  case (less i)
  show ?case
  proof (cases "i = 0")
    case False
    with less have "h ! 0 \<le> h ! ((i - 1) div 2)" by auto
    also have "\<dots> \<le> h ! i"
      using assms(1) less.prems False by (auto simp: is_heap_def)
    finally show ?thesis .
  qed simp
qed

lemma heappush_spec:
  assumes "is_heap h"
  shows "is_heap (heappush h k) \<and> mset (heappush h k) = add_mset k (mset h)"
proof -
  have "hole_heap (h @ [k]) (length h)"
    using assms by (auto simp: hole_heap_def is_heap_def nth_append dest: child_cases)
  moreover have "below_children ((h @ [k]) ! length h) (h @ [k]) (length h)"
    by (auto simp: below_children_def dest: child_cases)
  ultimately show ?thesis
    using siftdown_spec [of "h @ [k]" "length h"] by (simp add: heappush_def)
qed

lemma heappop_spec:
  assumes "is_heap h" and "h \<noteq> []"
  shows "\<exists>h'. heappop h = Inr (h ! 0, h') \<and> is_heap h' \<and> mset h = add_mset (h ! 0) (mset h')"
proof (cases "butlast h = []")
  case True
  with assms(2) obtain x where "h = [x]"
    by (metis append_butlast_last_id append_Nil)
  then show ?thesis by (simp add: heappop_def is_heap_def)
next
  case False
  let ?r = "(butlast h)[0 := last h]"
  have nth: "butlast h ! i = h ! i" if "i < length h - 1" for i
    using that by (simp add: nth_butlast)
  have "hole_heap ?r 0"
    unfolding hole_heap_fill
    using assms(1) nth by (auto simp: hole_heap_def is_heap_def)
  with False have sift: "is_heap (siftup ?r 0)" "mset (siftup ?r 0) = mset ?r"
    using siftup_spec [of ?r] by auto
  have root: "butlast h ! 0 = h ! 0"
  proof (rule nth)
    show "0 < length h - 1"
      using False by (cases h rule: rev_cases) auto
  qed
  have "mset (butlast h @ [last h]) = add_mset (last h) (mset (butlast h))"
    by simp
  then have "mset h = add_mset (last h) (mset (butlast h))"
    using assms(2) by (simp only: append_butlast_last_id not_False_eq_True)
  moreover have "h ! 0 \<in> set (butlast h)"
    using False root nth_mem [of 0 "butlast h"] by (simp del: length_butlast)
  then have "add_mset (h ! 0) (mset ?r) = add_mset (last h) (mset (butlast h))"
    using False root by (simp add: mset_update del: length_butlast)
  ultimately show ?thesis
    using assms(2) False sift root by (simp add: heappop_def Let_def)
qed

lemma heap_top_min: "is_heap h \<Longrightarrow> heap_top h = Some k \<Longrightarrow> k = Min (set h)"
  using is_heap_root_le [of h]
  by (intro Min_eqI [symmetric]) (auto simp: heap_top_def in_set_conv_nth split: if_splits)

interpretation heap: min_queue heappush heappop heap_top mset is_heap
proof unfold_locales
  fix h :: "'a list" and k :: 'a
  assume h: "is_heap h"
  { show "mset (heappush h k) = add_mset k (mset h)" and "is_heap (heappush h k)"
      using heappush_spec [OF h] by auto
  next
    show "heap_top h = None \<longleftrightarrow> mset h = {#}"
      by (simp add: heap_top_def)
  next
    assume "heap_top h = Some k"
    with h show "k = Min_mset (mset h)" by (simp add: heap_top_min)
  next
    assume "mset h = {#}"
    then show "heappop h = Inl IndexError" by (simp add: heappop_def)
  next
    assume "heap_top h = Some k"
    then show "\<exists>h'. heappop h = Inr (k, h') \<and> is_heap h' \<and> mset h' = mset h - {#k#}"
      using heappop_spec [OF h] by (auto simp: heap_top_def split: if_splits)
  }
qed

interpretation ooo: indexed_queue heappush heappop heap_top mset is_heap
  map_of AList.update AList.delete "[]"
  by unfold_locales

text \<open>For the termination of the loops that pop: a successful pop shortens the list.\<close>

lemma length_siftdown [simp]: "length (siftdown h s p) = length h"
proof -
  have "length (fst (siftdown_loop h s p x)) = length h" for x
  proof (induction h s p x rule: siftdown_loop.induct)
    case (1 h s p x)
    then show ?case
      by (simp add: siftdown_loop.simps [of h s p x] Let_def)
  qed
  then show ?thesis
    by (auto simp: siftdown_def Let_def split: prod.splits) (metis fst_conv)
qed

lemma length_siftup [simp]: "length (siftup h p) = length h"
proof -
  have "length (fst (siftup_loop h p)) = length h"
  proof (induction h p rule: siftup_loop.induct)
    case (1 h p)
    then show ?case
      by (simp add: siftup_loop.simps [of h p] Let_def)
  qed
  then show ?thesis
    by (auto simp: siftup_def Let_def split: prod.splits)
qed

lemma heappop_length: "heappop h = Inr (k, h') \<Longrightarrow> length h = Suc (length h')"
  by (cases h rule: rev_cases) (auto simp: heappop_def Let_def split: if_splits)

end
