(* ===== verification/Ludp_Host.thy ===== *)
theory Ludp_Host
  imports Complex_Main Ludp_Wire Py_Heapq
begin

text \<open>
  The state of the class \<open>LudpHost\<close> (\<open>sw/ludp_host.py\<close>) and the operations of its receive
  thread: \<open>__init__\<close>, \<open>reset_state\<close>, \<open>start\<close>, \<open>stop\<close>, \<open>get_stats\<close>,
  \<open>send_credit\<close>, \<open>_deliver\<close>, \<open>_handle_data\<close>, \<open>_handle_cmd_ack\<close>,
  \<open>_handle_cmd_cpl\<close> and the dispatch of one datagram in \<open>_recv_loop\<close>.

  Conventions. Python's integers are \<open>int\<close>. Times are exact rationals: the rounding of Python's
  floats is not modelled. The socket is the field \<open>outbox\<close>, the datagrams handed to
  \<open>sendto(\<dots>, self.fpga_addr)\<close>, oldest first. The application callback is a function on an
  application state \<open>'a\<close> that the host carries; a callback that raises is not modelled. Debug
  output has no effect on the state and is left out. An exception is \<open>Inl\<close>, next to the state
  as the code left it.
\<close>

section \<open>State\<close>

record LudpStats =
  packets_received :: int
  packets_processed :: int
  packets_out_of_order :: int
  packets_retransmitted :: int
  nacks_sent :: int
  credits_sent :: int
  bytes_received :: int
  start_time :: rat
  last_seq :: int
  gap_count :: int

text \<open>An entry of \<open>pending_cmds\<close>: the event's flag and the response.\<close>

record pending_cmd =
  event :: bool
  response :: "bytes option"

record 'a host =
  fpga_ip :: string
  local_port :: int
  window_size :: int
  credit_interval :: int
  nack_timeout_ms :: rat
  credit_poll_ms :: rat
  cmd_timeout_ms :: rat
  on_data :: "(LudpDataPacket \<Rightarrow> 'a \<Rightarrow> 'a) option"
  expected_seq :: int
  abs_credit :: int
  highest_seq :: int
  out_of_order :: "(int, LudpDataPacket) dict"
  ooo_heap :: "int list"
  pending_nacks :: "(int, rat) dict"
  running :: bool
  stats :: LudpStats
  pending_cmds :: "(int, pending_cmd) dict"
  next_cmd_id :: int
  outbox :: "bytes list"
  sock_closed :: bool
  app :: 'a

definition new_stats :: LudpStats where
  "new_stats = \<lparr>packets_received = 0, packets_processed = 0, packets_out_of_order = 0,
     packets_retransmitted = 0, nacks_sent = 0, credits_sent = 0, bytes_received = 0,
     start_time = 0, last_seq = -1, gap_count = 0\<rparr>"

definition init_host ::
    "string \<Rightarrow> int \<Rightarrow> int \<Rightarrow> int \<Rightarrow> rat \<Rightarrow> rat \<Rightarrow> rat \<Rightarrow>
     (LudpDataPacket \<Rightarrow> 'a \<Rightarrow> 'a) option \<Rightarrow> 'a \<Rightarrow> 'a host" where
  "init_host ip port window interval nack_ms poll_ms cmd_ms cb a0 =
     \<lparr>fpga_ip = ip, local_port = port, window_size = window, credit_interval = interval,
      nack_timeout_ms = nack_ms, credit_poll_ms = poll_ms, cmd_timeout_ms = cmd_ms, on_data = cb,
      expected_seq = 0, abs_credit = window, highest_seq = 0, out_of_order = [], ooo_heap = [],
      pending_nacks = [], running = False, stats = new_stats, pending_cmds = [], next_cmd_id = 1,
      outbox = [], sock_closed = False, app = a0\<rparr>"

definition reset_state :: "'a host \<Rightarrow> 'a host" where
  "reset_state h = h\<lparr>expected_seq := 0, abs_credit := window_size h, highest_seq := 0,
     out_of_order := [], ooo_heap := [], pending_nacks := [], pending_cmds := [],
     next_cmd_id := 1, stats := new_stats\<rparr>"

definition start_host :: "rat \<Rightarrow> 'a host \<Rightarrow> 'a host" where
  "start_host now h = h\<lparr>running := True, stats := (stats h)\<lparr>start_time := now\<rparr>\<rparr>"

definition stop_host :: "'a host \<Rightarrow> 'a host" where
  "stop_host h = h\<lparr>running := False, sock_closed := True\<rparr>"

definition get_stats :: "'a host \<Rightarrow> LudpStats" where
  "get_stats h = \<lparr>packets_received = packets_received (stats h),
     packets_processed = packets_processed (stats h),
     packets_out_of_order = packets_out_of_order (stats h),
     packets_retransmitted = packets_retransmitted (stats h),
     nacks_sent = nacks_sent (stats h), credits_sent = credits_sent (stats h),
     bytes_received = bytes_received (stats h), start_time = start_time (stats h),
     last_seq = last_seq (stats h), gap_count = gap_count (stats h)\<rparr>"

definition throughput_mbps :: "rat \<Rightarrow> LudpStats \<Rightarrow> rat" where
  "throughput_mbps now st =
     (let elapsed = now - start_time st
      in if elapsed \<le> 0 then 0 else of_int (bytes_received st * 8) / (elapsed * 1000000))"

definition packet_rate_kpps :: "rat \<Rightarrow> LudpStats \<Rightarrow> rat" where
  "packet_rate_kpps now st =
     (let elapsed = now - start_time st
      in if elapsed \<le> 0 then 0 else of_int (packets_received st) / (elapsed * 1000))"

section \<open>Operations\<close>

definition send_credit :: "int \<Rightarrow> 'a host \<Rightarrow> (unit, 'a host) outcome" where
  "send_credit credit h = (case build_credit credit of
       Inl e \<Rightarrow> (Inl e, h)
     | Inr pkt \<Rightarrow> (Inr (), h\<lparr>outbox := outbox h @ [pkt],
         stats := (stats h)\<lparr>credits_sent := credits_sent (stats h) + 1\<rparr>\<rparr>))"

definition deliver :: "LudpDataPacket \<Rightarrow> 'a host \<Rightarrow> 'a host" where
  "deliver pkt h =
     (let h1 = h\<lparr>stats := (stats h)\<lparr>packets_processed := packets_processed (stats h) + 1\<rparr>\<rparr>
      in case on_data h1 of None \<Rightarrow> h1 | Some f \<Rightarrow> h1\<lparr>app := f pkt (app h1)\<rparr>)"

text \<open>\<open>while self.ooo_heap and self.ooo_heap[0] < self.expected_seq: heappop(self.ooo_heap)\<close>\<close>

function drop_stale :: "int \<Rightarrow> int list \<Rightarrow> int list" where
  "drop_stale expected heap = (case heap_top heap of
       None \<Rightarrow> heap
     | Some s \<Rightarrow> if s < expected
         then (case heappop heap of Inl e \<Rightarrow> heap | Inr (x, heap') \<Rightarrow> drop_stale expected heap')
         else heap)"
  by pat_completeness auto
termination
  by (relation "measure (\<lambda>(e, heap). length heap)") (auto dest: heappop_length)

text \<open>
  \<open>while self.ooo_heap and self.ooo_heap[0] == self.expected_seq:\<close> pop the entry, take its packet
  out of the dictionary (a missing key raises), deliver it and advance.
\<close>

lemma deliver_heap: "ooo_heap (deliver pkt h) = ooo_heap h"
  by (simp add: deliver_def Let_def split: option.split)

function drain_ready :: "'a host \<Rightarrow> (unit, 'a host) outcome" where
  "drain_ready h =
     (if heap_top (ooo_heap h) = Some (expected_seq h)
      then (case heappop (ooo_heap h) of
          Inl e \<Rightarrow> (Inl e, h)
        | Inr (seq, heap') \<Rightarrow>
            (case dict_get (out_of_order h) seq of
               None \<Rightarrow> (Inl KeyError, h\<lparr>ooo_heap := heap'\<rparr>)
             | Some pkt \<Rightarrow>
                 let h1 = deliver pkt (h\<lparr>ooo_heap := heap',
                                        out_of_order := dict_del seq (out_of_order h)\<rparr>)
                 in drain_ready (h1\<lparr>expected_seq := expected_seq h1 + 1\<rparr>)))
      else (Inr (), h))"
  by pat_completeness auto
termination
  by (relation "measure (\<lambda>h. length (ooo_heap h))") (auto simp: deliver_heap dest: heappop_length)

declare drop_stale.simps [simp del] drain_ready.simps [simp del]

text \<open>Grant the credit \<open>expected_seq + window_size\<close> if it is a new one.\<close>

definition advance_credit :: "'a host \<Rightarrow> (unit, 'a host) outcome" where
  "advance_credit h =
     (let new_credit = expected_seq h + window_size h
      in if new_credit > abs_credit h
         then and_then (send_credit new_credit h) (\<lambda>_ h1. (Inr (), h1\<lparr>abs_credit := new_credit\<rparr>))
         else (Inr (), h))"

definition count_packet :: "bytes \<Rightarrow> LudpDataPacket \<Rightarrow> 'a host \<Rightarrow> 'a host" where
  "count_packet data pkt h =
     (let st = (stats h)\<lparr>packets_received := packets_received (stats h) + 1,
                bytes_received := bytes_received (stats h) + int (length data),
                last_seq := seq_num pkt\<rparr>
      in h\<lparr>stats := (if is_retransmit pkt
                     then st\<lparr>packets_retransmitted := packets_retransmitted st + 1\<rparr> else st)\<rparr>)"

definition track_highest :: "LudpDataPacket \<Rightarrow> 'a host \<Rightarrow> 'a host" where
  "track_highest pkt h =
     (if seq_num pkt > highest_seq h then h\<lparr>highest_seq := seq_num pkt\<rparr> else h)"

text \<open>The periodic credit update at the end of the in-order branch; \<open>%\<close> raises on 0.\<close>

definition credit_update :: "'a host \<Rightarrow> (unit, 'a host) outcome" where
  "credit_update h =
     (if credit_interval h = 0 then (Inl ZeroDivisionError, h)
      else if expected_seq h mod credit_interval h = 0 then advance_credit h
      else (Inr (), h))"

definition handle_in_order :: "LudpDataPacket \<Rightarrow> 'a host \<Rightarrow> (unit, 'a host) outcome" where
  "handle_in_order pkt h =
     (let h1 = deliver pkt h;
          h2 = h1\<lparr>expected_seq := expected_seq h1 + 1\<rparr>;
          h3 = h2\<lparr>ooo_heap := drop_stale (expected_seq h2) (ooo_heap h2)\<rparr>
      in and_then (drain_ready h3) (\<lambda>_ h4. credit_update h4))"

definition store_future :: "LudpDataPacket \<Rightarrow> 'a host \<Rightarrow> 'a host" where
  "store_future pkt h =
     (let h1 = h\<lparr>stats := (stats h)\<lparr>packets_out_of_order := packets_out_of_order (stats h) + 1,
                                    gap_count := gap_count (stats h) + 1\<rparr>\<rparr>;
          h2 = (if dict_get (out_of_order h1) (seq_num pkt) = None
                then h1\<lparr>ooo_heap := heappush (ooo_heap h1) (seq_num pkt)\<rparr> else h1)
      in h2\<lparr>out_of_order := dict_set (seq_num pkt) pkt (out_of_order h2)\<rparr>)"

definition handle_data :: "bytes \<Rightarrow> 'a host \<Rightarrow> (unit, 'a host) outcome" where
  "handle_data data h =
     (if length data < LUDP_HDR_LEN then (Inr (), h)
      else case parse_data data of
          Inl e \<Rightarrow> (Inl e, h)
        | Inr pkt \<Rightarrow>
            let h1 = track_highest pkt (count_packet data pkt h)
            in if seq_num pkt = expected_seq h1 then handle_in_order pkt h1
               else if seq_num pkt > expected_seq h1 then (Inr (), store_future pkt h1)
               else (Inr (), h1))"

text \<open>Both command responses end the same way: under the lock, store the datagram and set the
  event if the command is pending.\<close>

definition set_response :: "int \<Rightarrow> bytes \<Rightarrow> 'a host \<Rightarrow> 'a host" where
  "set_response cmd_id data h =
     (case dict_get (pending_cmds h) cmd_id of
        None \<Rightarrow> h
      | Some c \<Rightarrow> h\<lparr>pending_cmds := dict_set cmd_id (c\<lparr>response := Some data, event := True\<rparr>)
                                                  (pending_cmds h)\<rparr>)"

definition handle_cmd_ack :: "bytes \<Rightarrow> 'a host \<Rightarrow> (unit, 'a host) outcome" where
  "handle_cmd_ack data h =
     (if length data < 12 then (Inr (), h)
      else case unpack1 Little FI (py_slice 4 8 data) of
          Inl e \<Rightarrow> (Inl e, h)
        | Inr cmd_id \<Rightarrow> (Inr (), set_response cmd_id data h))"

definition handle_cmd_cpl :: "bytes \<Rightarrow> 'a host \<Rightarrow> (unit, 'a host) outcome" where
  "handle_cmd_cpl data h =
     (if length data < 16 then (Inr (), h)
      else case unpack1 Little FI (py_slice 4 8 data) of
          Inl e \<Rightarrow> (Inl e, h)
        | Inr cmd_id \<Rightarrow> (Inr (), set_response cmd_id data h))"

text \<open>The body of \<open>_recv_loop\<close> after a datagram has arrived.\<close>

definition recv_datagram :: "bytes \<Rightarrow> 'a host \<Rightarrow> (unit, 'a host) outcome" where
  "recv_datagram data h =
     (if length data < LUDP_HDR_LEN then (Inr (), h)
      else case unpack1 Little FH (py_slice 0 2 data) of
          Inl e \<Rightarrow> (Inl e, h)
        | Inr m \<Rightarrow>
            if m \<noteq> LUDP_MAGIC then (Inr (), h)
            else let ty = uint (data ! 2)
                 in if ty = PKT_DATA then handle_data data h
                    else if ty = PKT_CMD_ACK then handle_cmd_ack data h
                    else if ty = PKT_CMD_CPL then handle_cmd_cpl data h
                    else (Inr (), h))"

text \<open>
  \<open>_recv_loop\<close> itself, over what its calls of \<open>recvfrom\<close> return: a datagram, or an
  \<open>OSError\<close> (a closed socket, but also a timeout), which ends the loop. An exception of a handler
  ends the thread. The second component says why the loop is over, \<open>None\<close> while it still runs.
\<close>

datatype recv_result = Datagram bytes | OSError
datatype recv_end = Stopped | SocketError | Crashed py_error

fun recv_loop :: "recv_result list \<Rightarrow> 'a host \<Rightarrow> recv_end option \<times> 'a host" where
  "recv_loop [] h = (if running h then None else Some Stopped, h)"
| "recv_loop (r # rs) h =
     (if \<not> running h then (Some Stopped, h)
      else case r of
          OSError \<Rightarrow> (Some SocketError, h)
        | Datagram data \<Rightarrow>
            (case recv_datagram data h of
               (Inl e, h') \<Rightarrow> (Some (Crashed e), h')
             | (Inr _, h') \<Rightarrow> recv_loop rs h'))"

end
