(* ===== verification/Reorder_Spec.thy ===== *)
theory Reorder_Spec
  imports Ludp_Wire
begin

text \<open>
  The abstract specification of the receiver's reordering: a state is the next sequence number
  wanted and a finite map of packets that came early. Receiving the wanted packet releases it
  together with the longest run of buffered packets that follows it; an early packet is kept; an
  old one is dropped. The theory proves what this machine promises over any input, in any order,
  with losses and duplicates: the released packets are numbered \<open>0, 1, 2, \<dots>\<close> up to the first
  number that has never arrived.
\<close>

section \<open>The machine\<close>

type_synonym reorder = "int \<times> (int \<rightharpoonup> LudpDataPacket)"

definition run_length :: "(int \<rightharpoonup> 'p) \<Rightarrow> int \<Rightarrow> nat" where
  "run_length buf n = (LEAST k. buf (n + int k) = None)"

definition run :: "(int \<rightharpoonup> 'p) \<Rightarrow> int \<Rightarrow> 'p list" where
  "run buf n = map (\<lambda>i. the (buf (n + int i))) [0..<run_length buf n]"

definition spec_release :: "int \<Rightarrow> (int \<rightharpoonup> LudpDataPacket) \<Rightarrow> LudpDataPacket list \<times> reorder" where
  \<comment> \<open>release the run that starts at \<open>n\<close>\<close>
  "spec_release n buf =
     (let n' = n + int (run_length buf n) in (run buf n, (n', buf |` {n'..})))"

definition spec_recv :: "LudpDataPacket \<Rightarrow> reorder \<Rightarrow> LudpDataPacket list \<times> reorder" where
  "spec_recv p a = (case a of (n, buf) \<Rightarrow>
     if seq_num p = n
     then (case spec_release (n + 1) buf of (ps, a') \<Rightarrow> (p # ps, a'))
     else if seq_num p > n then ([], (n, buf(seq_num p \<mapsto> p)))
     else ([], (n, buf)))"

fun spec_run :: "LudpDataPacket list \<Rightarrow> reorder \<Rightarrow> LudpDataPacket list \<times> reorder" where
  "spec_run [] a = ([], a)"
| "spec_run (p # ps) a =
     (case spec_recv p a of (out, a') \<Rightarrow>
       (case spec_run ps a' of (out', a'') \<Rightarrow> (out @ out', a'')))"

section \<open>Runs\<close>

lemma run_length_end:
  assumes "finite (dom buf)"
  shows "buf (n + int (run_length buf n)) = None"
proof -
  have "\<exists>k. buf (n + int k) = None"
  proof (rule ccontr)
    assume "\<nexists>k. buf (n + int k) = None"
    then have "range (\<lambda>k. n + int k) \<subseteq> dom buf" by auto
    with assms have "finite (range (\<lambda>k. n + int k))" by (rule rev_finite_subset)
    moreover have "inj (\<lambda>k. n + int k)" by (simp add: inj_def)
    ultimately show False
      using finite_imageD infinite_UNIV_nat by blast
  qed
  then show ?thesis
    unfolding run_length_def by (rule LeastI_ex)
qed

lemma run_length_inside: "k < run_length buf n \<Longrightarrow> buf (n + int k) \<noteq> None"
  unfolding run_length_def by (rule not_less_Least)

lemma run_length_None: "buf n = None \<Longrightarrow> run_length buf n = 0"
  unfolding run_length_def by (rule Least_equality) auto

lemma run_length_Some:
  assumes "finite (dom buf)" and "buf n = Some p"
  shows "run_length buf n = Suc (run_length buf (n + 1))"
proof -
  have "(LEAST k. buf (n + int k) = None) = Suc (LEAST k. buf (n + int (Suc k)) = None)"
    using run_length_end [OF assms(1), of n] assms(2) by (intro Least_Suc) auto
  then show ?thesis
    by (simp add: run_length_def add.assoc add.left_commute)
qed

lemma run_None [simp]: "buf n = None \<Longrightarrow> run buf n = []"
  by (simp add: run_def run_length_None)

lemma run_Some: "finite (dom buf) \<Longrightarrow> buf n = Some p \<Longrightarrow> run buf n = p # run buf (n + 1)"
  by (simp add: run_def run_length_Some map_upt_Suc add.assoc del: upt_Suc)

lemma run_length_cong: "(\<And>k. n \<le> k \<Longrightarrow> buf k = buf' k) \<Longrightarrow> run_length buf n = run_length buf' n"
  by (simp add: run_length_def)

lemma run_cong: "(\<And>k. n \<le> k \<Longrightarrow> buf k = buf' k) \<Longrightarrow> run buf n = run buf' n"
  using run_length_cong [of n buf buf'] by (simp add: run_def)

lemma length_run [simp]: "length (run buf n) = run_length buf n"
  by (simp add: run_def)

lemma set_run: "set (run buf n) \<subseteq> ran buf"
  using run_length_inside [of _ buf n] by (force simp: run_def ran_def)

lemma seq_run:
  assumes "\<And>k p. buf k = Some p \<Longrightarrow> seq_num p = k"
  shows "map seq_num (run buf n) = map (\<lambda>i. n + int i) [0..<run_length buf n]"
  using run_length_inside [of _ buf n] assms by (fastforce simp: run_def)

text \<open>The released packets are in order, between the old and the new number.\<close>

lemma spec_release_out:
  assumes seq: "\<And>k p. buf k = Some p \<Longrightarrow> seq_num p = k" and rel: "spec_release n buf = (ps, (n', buf'))"
  shows "sorted_wrt (<) (map seq_num ps)" and "\<forall>p \<in> set ps. n \<le> seq_num p \<and> seq_num p < n'"
    and "n \<le> n'" and "set ps \<subseteq> ran buf" and "ran buf' \<subseteq> ran buf"
proof -
  have ps: "ps = run buf n" and n': "n' = n + int (run_length buf n)" and buf': "buf' = buf |` {n'..}"
    using rel by (auto simp: spec_release_def Let_def)
  have m: "map seq_num ps = map (\<lambda>i. n + int i) [0..<run_length buf n]"
    unfolding ps using seq by (rule seq_run)
  show "sorted_wrt (<) (map seq_num ps)"
    unfolding m by (simp add: sorted_wrt_map)
  have "seq_num ` set ps = (\<lambda>i. n + int i) ` {0..<run_length buf n}"
    using arg_cong [OF m, of set] by simp
  then show "\<forall>p \<in> set ps. n \<le> seq_num p \<and> seq_num p < n'"
    unfolding n' by (force simp: set_eq_iff image_iff)
  show "n \<le> n'" by (simp add: n')
  show "set ps \<subseteq> ran buf" unfolding ps by (rule set_run)
  show "ran buf' \<subseteq> ran buf" by (auto simp: buf' ran_def restrict_map_def split: if_splits)
qed

section \<open>What the machine promises\<close>

definition spec_inv :: "LudpDataPacket set \<Rightarrow> LudpDataPacket list \<Rightarrow> reorder \<Rightarrow> bool" where
  \<comment> \<open>\<open>R\<close> the packets received so far, \<open>out\<close> the packets released so far\<close>
  "spec_inv R out a \<longleftrightarrow> (case a of (n, buf) \<Rightarrow>
     0 \<le> n \<and> finite (dom buf)
     \<and> {0..<n} \<subseteq> seq_num ` R \<and> n \<notin> seq_num ` R
     \<and> dom buf = {k \<in> seq_num ` R. n < k}
     \<and> (\<forall>k p. buf k = Some p \<longrightarrow> seq_num p = k \<and> p \<in> R)
     \<and> map seq_num out = map int [0..<nat n] \<and> set out \<subseteq> R)"

lemma spec_inv_init: "spec_inv {} [] (0, Map.empty)"
  by (simp add: spec_inv_def)

lemma upt_int_append:
  assumes "0 \<le> n"
  shows "map int [0..<nat n] @ map (\<lambda>i. n + int i) [0..<k] = map int [0..<nat (n + int k)]"
proof -
  have "nat (n + int k) = nat n + k" using assms by linarith
  moreover have "map (\<lambda>i. n + int i) [0..<k] = map int [nat n..<nat n + k]"
    using assms by (auto intro!: nth_equalityI)
  moreover have "[0..<nat n + k] = [0..<nat n] @ [nat n..<nat n + k]"
    by (rule upt_add_eq_append) simp
  ultimately show ?thesis by simp
qed

lemma spec_release_inv:
  assumes "0 \<le> n" and "finite (dom buf)" and "{0..<n} \<subseteq> seq_num ` R"
    and dom: "dom buf = {k \<in> seq_num ` R. n \<le> k}"
    and seq: "\<And>k p. buf k = Some p \<Longrightarrow> seq_num p = k \<and> p \<in> R"
    and out: "map seq_num out = map int [0..<nat n]" "set out \<subseteq> R"
    and rel: "spec_release n buf = (ps, a')"
  shows "spec_inv R (out @ ps) a'"
proof -
  let ?l = "run_length buf n"
  let ?n = "n + int ?l"
  have a': "a' = (?n, buf |` {?n..})" and ps: "ps = run buf n"
    using rel by (auto simp: spec_release_def Let_def)
  have inside: "k \<in> seq_num ` R" if "n \<le> k" "k < ?n" for k
  proof -
    have "nat (k - n) < ?l" and "n + int (nat (k - n)) = k" using that by linarith+
    with run_length_inside [of "nat (k - n)" buf n] have "k \<in> dom buf" by auto
    with dom show ?thesis by blast
  qed
  have "?n \<notin> dom buf"
    using run_length_end [OF assms(2), of n] by (simp add: domIff)
  with dom have new: "?n \<notin> seq_num ` R" by auto
  then have "dom (buf |` {?n..}) = {k \<in> seq_num ` R. ?n < k}"
    using dom by (auto simp: le_less)
  moreover have "finite {k \<in> seq_num ` R. ?n < k}"
    by (rule finite_subset [OF _ assms(2)]) (auto simp: dom)
  moreover have "map seq_num (out @ ps) = map int [0..<nat ?n]"
    using out(1) assms(1) seq by (simp add: ps seq_run upt_int_append)
  moreover have "set ps \<subseteq> R"
    using set_run [of buf n] seq by (auto simp: ps ran_def)
  moreover have "{0..<?n} \<subseteq> seq_num ` R"
    using assms(3) inside by (force simp: not_less)
  ultimately show ?thesis
    using assms(1,2) new seq out(2)
    by (auto simp: spec_inv_def a' restrict_map_def split: if_splits)
qed

lemma spec_recv_inv:
  assumes inv: "spec_inv R out a" and "0 \<le> seq_num p" and recv: "spec_recv p a = (ps, a')"
  shows "spec_inv (insert p R) (out @ ps) a'"
proof -
  obtain n buf where a: "a = (n, buf)" by fastforce
  note i = inv [unfolded a spec_inv_def, simplified]
  consider "seq_num p = n" | "seq_num p > n" | "seq_num p < n" by linarith
  then show ?thesis
  proof cases
    case 1
    then obtain qs where rel: "spec_release (n + 1) buf = (qs, a')" and ps: "ps = p # qs"
      using recv by (auto simp: spec_recv_def a split: prod.splits)
    have "spec_inv (insert p R) ((out @ [p]) @ qs) a'"
    proof (rule spec_release_inv [OF _ _ _ _ _ _ _ rel])
      show "{0..<n + 1} \<subseteq> seq_num ` insert p R"
        using i 1 by force
      show "map seq_num (out @ [p]) = map int [0..<nat (n + 1)]"
        using i 1 by (simp add: nat_add_distrib)
    qed (use i 1 in auto)
    then show ?thesis by (simp add: ps)
  next
    case 2
    then have "ps = []" and a': "a' = (n, buf(seq_num p \<mapsto> p))"
      using recv by (auto simp: spec_recv_def a)
    moreover have "dom (buf(seq_num p \<mapsto> p)) = {k \<in> seq_num ` insert p R. n < k}"
      using i 2 by auto
    moreover have "finite {k \<in> seq_num ` insert p R. n < k}"
      by (rule finite_subset [of _ "insert (seq_num p) (dom buf)"]) (use i in auto)
    ultimately show ?thesis
      using i 2 by (auto simp: spec_inv_def split: if_splits)
  next
    case 3
    then show ?thesis
      using recv i assms(2) by (auto simp: spec_recv_def spec_inv_def a)
  qed
qed

lemma spec_run_inv:
  assumes "spec_inv R out a" and "\<forall>p \<in> set ps. 0 \<le> seq_num p" and "spec_run ps a = (out', a')"
  shows "spec_inv (R \<union> set ps) (out @ out') a'"
  using assms
proof (induction ps arbitrary: R out a out')
  case Nil
  then show ?case by simp
next
  case (Cons p ps)
  obtain o1 a1 o2 where 1: "spec_recv p a = (o1, a1)" "spec_run ps a1 = (o2, a')"
      "out' = o1 @ o2"
    using Cons.prems(3) by (auto split: prod.splits)
  have "spec_inv (insert p R) (out @ o1) a1"
    using Cons.prems 1(1) by (intro spec_recv_inv) auto
  from Cons.IH [OF this _ 1(2)] Cons.prems(2) show ?case
    by (simp add: 1(3))
qed

end
