(* ===== verification/Ludp_Recv.thy ===== *)
theory Ludp_Recv
  imports Ludp_Host Reorder_Spec
begin

text \<open>
  Correctness of the receive path. The heap and the dictionary of early packets stay in step
  (\<open>reorder_inv\<close>), so no pop of the code can raise; \<open>_handle_data\<close> implements the abstract
  reordering machine of \<open>Reorder_Spec\<close> whatever its credit update does; the only exceptions are a
  zero credit interval and a credit that does not fit 32 bits; credits never run ahead of the
  window.
\<close>

section \<open>Frames\<close>

lemma deliver_frame [simp, frame]:
  "fpga_ip (deliver p h) = fpga_ip h" "local_port (deliver p h) = local_port h"
  "window_size (deliver p h) = window_size h" "credit_interval (deliver p h) = credit_interval h"
  "credit_poll_ms (deliver p h) = credit_poll_ms h" "cmd_timeout_ms (deliver p h) = cmd_timeout_ms h"
  "on_data (deliver p h) = on_data h" "expected_seq (deliver p h) = expected_seq h"
  "abs_credit (deliver p h) = abs_credit h" "highest_seq (deliver p h) = highest_seq h"
  "out_of_order (deliver p h) = out_of_order h" "ooo_heap (deliver p h) = ooo_heap h"
  "pending_nacks (deliver p h) = pending_nacks h" "running (deliver p h) = running h"
  "pending_cmds (deliver p h) = pending_cmds h" "next_cmd_id (deliver p h) = next_cmd_id h"
  "outbox (deliver p h) = outbox h" "sock_closed (deliver p h) = sock_closed h"
  "nacks_sent (stats (deliver p h)) = nacks_sent (stats h)"
  "credits_sent (stats (deliver p h)) = credits_sent (stats h)"
  "packets_received (stats (deliver p h)) = packets_received (stats h)"
  "packets_processed (stats (deliver p h)) = packets_processed (stats h) + 1"
  by (simp_all add: deliver_def Let_def split: option.split)

lemma fold_deliver_frame [simp, frame]:
  "fpga_ip (fold deliver ps h) = fpga_ip h" "local_port (fold deliver ps h) = local_port h"
  "window_size (fold deliver ps h) = window_size h"
  "credit_interval (fold deliver ps h) = credit_interval h"
  "credit_poll_ms (fold deliver ps h) = credit_poll_ms h"
  "cmd_timeout_ms (fold deliver ps h) = cmd_timeout_ms h"
  "on_data (fold deliver ps h) = on_data h" "expected_seq (fold deliver ps h) = expected_seq h"
  "abs_credit (fold deliver ps h) = abs_credit h" "highest_seq (fold deliver ps h) = highest_seq h"
  "out_of_order (fold deliver ps h) = out_of_order h" "ooo_heap (fold deliver ps h) = ooo_heap h"
  "pending_nacks (fold deliver ps h) = pending_nacks h" "running (fold deliver ps h) = running h"
  "pending_cmds (fold deliver ps h) = pending_cmds h"
  "next_cmd_id (fold deliver ps h) = next_cmd_id h"
  "outbox (fold deliver ps h) = outbox h" "sock_closed (fold deliver ps h) = sock_closed h"
  "nacks_sent (stats (fold deliver ps h)) = nacks_sent (stats h)"
  "credits_sent (stats (fold deliver ps h)) = credits_sent (stats h)"
  "packets_received (stats (fold deliver ps h)) = packets_received (stats h)"
  by (induction ps arbitrary: h) simp_all

lemma deliver_update:
  "deliver p (h\<lparr>ooo_heap := a\<rparr>) = (deliver p h)\<lparr>ooo_heap := a\<rparr>"
  "deliver p (h\<lparr>out_of_order := b\<rparr>) = (deliver p h)\<lparr>out_of_order := b\<rparr>"
  "deliver p (h\<lparr>expected_seq := c\<rparr>) = (deliver p h)\<lparr>expected_seq := c\<rparr>"
  by (simp_all add: deliver_def Let_def split: option.split)

lemma fold_deliver_update:
  "fold deliver ps (h\<lparr>ooo_heap := a\<rparr>) = (fold deliver ps h)\<lparr>ooo_heap := a\<rparr>"
  "fold deliver ps (h\<lparr>out_of_order := b\<rparr>) = (fold deliver ps h)\<lparr>out_of_order := b\<rparr>"
  "fold deliver ps (h\<lparr>expected_seq := c\<rparr>) = (fold deliver ps h)\<lparr>expected_seq := c\<rparr>"
  by (induction ps arbitrary: h) (simp_all add: deliver_update)

text \<open>What the application has seen after the host delivered \<open>ps\<close>.\<close>

definition handed_over :: "'a host \<Rightarrow> LudpDataPacket list \<Rightarrow> 'a" where
  "handed_over h ps = (case on_data h of None \<Rightarrow> app h | Some f \<Rightarrow> fold f ps (app h))"

lemma app_deliver: "app (deliver p h) = (case on_data h of None \<Rightarrow> app h | Some f \<Rightarrow> f p (app h))"
  by (simp add: deliver_def Let_def split: option.split)

lemma app_fold_deliver: "app (fold deliver ps h) = handed_over h ps"
  by (induction ps arbitrary: h) (auto simp: handed_over_def app_deliver split: option.split)

lemma send_credit_cases:
  obtains (bad) "\<not> (0 \<le> c \<and> c < 2 ^ 32)" "send_credit c h = (Inl StructError, h)"
  | (good) pkt where "0 \<le> c" "c < 2 ^ 32" "build_credit c = Inr pkt"
      "send_credit c h = (Inr (), h\<lparr>outbox := outbox h @ [pkt],
         stats := (stats h)\<lparr>credits_sent := credits_sent (stats h) + 1\<rparr>\<rparr>)"
proof (cases "0 \<le> c \<and> c < 2 ^ 32")
  case True
  with build_credit_ok [of c] good show ?thesis
    by (auto simp: send_credit_def)
next
  case False
  with build_credit_error [of c] bad show ?thesis
    by (auto simp: send_credit_def)
qed

text \<open>The credit operations touch the outbox, the credit counter and the credit only.\<close>

definition credit_frame :: "'a host \<Rightarrow> 'a host \<Rightarrow> bool" where
  "credit_frame h h' \<longleftrightarrow> (\<exists>ob n c. h' = h\<lparr>outbox := ob, stats := (stats h)\<lparr>credits_sent := n\<rparr>,
     abs_credit := c\<rparr>)"

lemma credit_frame_refl [simp, intro]: "credit_frame h h"
proof -
  have "h = h\<lparr>outbox := outbox h, stats := (stats h)\<lparr>credits_sent := credits_sent (stats h)\<rparr>,
      abs_credit := abs_credit h\<rparr>" by simp
  then show ?thesis unfolding credit_frame_def by blast
qed

lemma credit_frame_trans: "credit_frame h h' \<Longrightarrow> credit_frame h' h'' \<Longrightarrow> credit_frame h h''"
  by (fastforce simp: credit_frame_def)

lemma credit_frameD [frame]:
  assumes "credit_frame h h'"
  shows "expected_seq h' = expected_seq h" "out_of_order h' = out_of_order h"
    "ooo_heap h' = ooo_heap h" "app h' = app h" "on_data h' = on_data h"
    "window_size h' = window_size h" "credit_interval h' = credit_interval h"
    "highest_seq h' = highest_seq h" "running h' = running h" "pending_cmds h' = pending_cmds h"
    "next_cmd_id h' = next_cmd_id h" "credit_poll_ms h' = credit_poll_ms h"
    "cmd_timeout_ms h' = cmd_timeout_ms h" "pending_nacks h' = pending_nacks h"
    "nacks_sent (stats h') = nacks_sent (stats h)"
    "packets_received (stats h') = packets_received (stats h)"
    "packets_processed (stats h') = packets_processed (stats h)"
  using assms by (auto simp: credit_frame_def)

lemma send_credit_frame [simp, intro]: "credit_frame h (snd (send_credit c h))"
proof (cases rule: send_credit_cases [of c h])
  case bad
  then show ?thesis by simp
next
  case (good pkt)
  then have "snd (send_credit c h) = h\<lparr>outbox := outbox h @ [pkt],
      stats := (stats h)\<lparr>credits_sent := credits_sent (stats h) + 1\<rparr>, abs_credit := abs_credit h\<rparr>"
    by simp
  then show ?thesis unfolding credit_frame_def by blast
qed

lemma credit_frame_abs_credit [simp, intro]: "credit_frame h (h\<lparr>abs_credit := c\<rparr>)"
proof -
  have "h\<lparr>abs_credit := c\<rparr> = h\<lparr>outbox := outbox h,
      stats := (stats h)\<lparr>credits_sent := credits_sent (stats h)\<rparr>, abs_credit := c\<rparr>" by simp
  then show ?thesis unfolding credit_frame_def by blast
qed

lemma send_and_set_frame:
  "credit_frame h (snd (and_then (send_credit c h) (\<lambda>_ h1. (Inr (), h1\<lparr>abs_credit := c'\<rparr>))))"
  by (rule and_then_rel) (auto intro: credit_frame_trans)

lemma advance_credit_frame [simp, intro]: "credit_frame h (snd (advance_credit h))"
  by (simp add: advance_credit_def Let_def send_and_set_frame)

lemma credit_update_frame [simp, intro]: "credit_frame h (snd (credit_update h))"
  by (simp add: credit_update_def)

section \<open>The invariant of the reorder buffer\<close>

definition reorder_inv :: "'a host \<Rightarrow> bool" where
  "reorder_inv h \<longleftrightarrow>
     ooo.tracks (ooo_heap h) (out_of_order h)
     \<and> (\<forall>k p. map_of (out_of_order h) k = Some p \<longrightarrow>
          seq_num p = k \<and> expected_seq h < k \<and> k < 2 ^ 32)
     \<and> 0 \<le> expected_seq h \<and> expected_seq h \<le> 2 ^ 32"

lemma tracks_empty [simp]: "ooo.tracks [] []"
  by (simp add: ooo.tracks_def is_heap_def)

lemma reorder_inv_empty:
  "ooo_heap h = [] \<Longrightarrow> out_of_order h = [] \<Longrightarrow> expected_seq h = 0 \<Longrightarrow> reorder_inv h"
  by (simp add: reorder_inv_def)

lemma reorder_inv_cong:
  "ooo_heap h' = ooo_heap h \<Longrightarrow> out_of_order h' = out_of_order h \<Longrightarrow> expected_seq h' = expected_seq h
   \<Longrightarrow> reorder_inv h' \<longleftrightarrow> reorder_inv h"
  by (simp add: reorder_inv_def)

section \<open>The loops\<close>

lemma drop_stale_noop: "(\<And>k. heap_top heap = Some k \<Longrightarrow> e \<le> k) \<Longrightarrow> drop_stale e heap = heap"
  by (subst drop_stale.simps) (auto split: option.split simp: not_less)

text \<open>Draining releases the run that starts at \<open>expected_seq\<close>, in order, and nothing else.\<close>

lemma drain_ready_eq:
  assumes "ooo.tracks (ooo_heap h) (out_of_order h)"
    and "\<forall>k \<in> dom (map_of (out_of_order h)). expected_seq h \<le> k"
  shows "\<exists>hp d. drain_ready h =
       (Inr (), (fold deliver (run (map_of (out_of_order h)) (expected_seq h)) h)
         \<lparr>ooo_heap := hp, out_of_order := d,
          expected_seq := expected_seq h + int (run_length (map_of (out_of_order h)) (expected_seq h))\<rparr>)
     \<and> ooo.tracks hp d
     \<and> map_of d = map_of (out_of_order h) |`
         {expected_seq h + int (run_length (map_of (out_of_order h)) (expected_seq h))..}"
  using assms
proof (induction "length (ooo_heap h)" arbitrary: h rule: less_induct)
  case less
  define buf where "buf = map_of (out_of_order h)"
  define n where "n = expected_seq h"
  have fin: "finite (dom buf)" by (simp add: buf_def finite_dom_map_of)
  show ?case
  proof (cases "heap_top (ooo_heap h) = Some n")
    case True
    obtain hp pkt where pop: "heappop (ooo_heap h) = Inr (n, hp)" "buf n = Some pkt"
        "ooo.tracks hp (dict_del n (out_of_order h))"
      using ooo.tracks_pop [OF less.prems(1) True] by (auto simp: buf_def)
    define h1 where "h1 = (deliver pkt h)\<lparr>ooo_heap := hp,
        out_of_order := dict_del n (out_of_order h), expected_seq := n + 1\<rparr>"
    have dr: "drain_ready h = drain_ready h1"
      using True pop by (subst drain_ready.simps)
        (simp add: h1_def n_def buf_def deliver_update Let_def)
    have buf1: "map_of (out_of_order h1) = buf(n := None)"
      by (simp add: h1_def buf_def AList.delete_conv')
    have rest: "run (buf(n := None)) (n + 1) = run buf (n + 1)"
        "run_length (buf(n := None)) (n + 1) = run_length buf (n + 1)"
      by (auto intro!: run_cong run_length_cong)
    have "length (ooo_heap h1) < length (ooo_heap h)"
      using heappop_length [OF pop(1)] by (simp add: h1_def)
    moreover have "ooo.tracks (ooo_heap h1) (out_of_order h1)"
      using pop(3) by (simp add: h1_def)
    moreover have "\<forall>k \<in> dom (map_of (out_of_order h1)). expected_seq h1 \<le> k"
      unfolding buf1
    proof
      fix k assume "k \<in> dom (buf(n := None))"
      then have "n \<le> k" and "k \<noteq> n"
        using less.prems(2) by (auto simp: n_def buf_def split: if_splits)
      then show "expected_seq h1 \<le> k" by (simp add: h1_def)
    qed
    ultimately obtain hp' d where
      IH: "drain_ready h1 = (Inr (), (fold deliver (run (map_of (out_of_order h1)) (expected_seq h1)) h1)
             \<lparr>ooo_heap := hp', out_of_order := d,
              expected_seq := expected_seq h1 + int (run_length (map_of (out_of_order h1)) (expected_seq h1))\<rparr>)"
        "ooo.tracks hp' d"
        "map_of d = map_of (out_of_order h1) |`
           {expected_seq h1 + int (run_length (map_of (out_of_order h1)) (expected_seq h1))..}"
      using less.hyps by blast
    have e1: "expected_seq h1 = n + 1" by (simp add: h1_def)
    have len: "run_length buf n = Suc (run_length buf (n + 1))"
      using fin pop(2) by (rule run_length_Some)
    have "fold deliver (run buf (n + 1)) h1 \<lparr>ooo_heap := hp', out_of_order := d, expected_seq := x\<rparr>
        = fold deliver (run buf n) h \<lparr>ooo_heap := hp', out_of_order := d, expected_seq := x\<rparr>" for x
      by (simp add: run_Some [OF fin pop(2)] h1_def fold_deliver_update)
    moreover have "(buf(n := None)) |` {n + int (run_length buf n)..} = buf |` {n + int (run_length buf n)..}"
      by (auto simp: restrict_map_def len)
    ultimately show ?thesis
      using IH unfolding dr buf1 e1 rest buf_def [symmetric] n_def [symmetric]
      by (intro exI [of _ hp'] exI [of _ d]) (simp add: len add.assoc)
  next
    case False
    have "buf n = None"
    proof (rule ccontr)
      assume "buf n \<noteq> None"
      then have n: "n \<in> dom buf" by blast
      then obtain k where k: "heap_top (ooo_heap h) = Some k"
        using ooo.tracks_top_None [OF less.prems(1)] by (cases "heap_top (ooo_heap h)") (auto simp: buf_def)
      from ooo.tracks_top [OF less.prems(1) k] n less.prems(2) have "k = n"
        by (force simp: buf_def n_def)
      with k False show False by simp
    qed
    moreover have "buf |` {n..} = buf"
      using less.prems(2) by (intro restrict_map_id) (auto simp: buf_def n_def)
    ultimately show ?thesis
      using False less.prems(1)
      by (subst drain_ready.simps)
        (auto simp: run_length_None n_def buf_def intro!: exI [of _ "ooo_heap h"] exI [of _ "out_of_order h"])
  qed
qed

section \<open>Refinement of the reordering machine\<close>

definition abs_reorder :: "'a host \<Rightarrow> reorder" where
  "abs_reorder h = (expected_seq h, map_of (out_of_order h))"

lemma reorder_invD:
  assumes "reorder_inv h"
  shows "ooo.tracks (ooo_heap h) (out_of_order h)"
    and "k \<in> dom (map_of (out_of_order h)) \<Longrightarrow> expected_seq h < k"
    and "k \<in> dom (map_of (out_of_order h)) \<Longrightarrow> k < 2 ^ 32"
    and "map_of (out_of_order h) k = Some p \<Longrightarrow> seq_num p = k"
    and "0 \<le> expected_seq h" and "expected_seq h \<le> 2 ^ 32"
  using assms by (auto simp: reorder_inv_def)

text \<open>From a state whose early packets are all at \<open>expected_seq\<close> or later, draining implements
  \<open>spec_release\<close> and re-establishes the invariant.\<close>

lemma drain_ready_refines:
  assumes "ooo.tracks (ooo_heap h) (out_of_order h)"
    and keys: "\<And>k p. map_of (out_of_order h) k = Some p \<Longrightarrow>
      seq_num p = k \<and> expected_seq h \<le> k \<and> k < 2 ^ 32"
    and "0 \<le> expected_seq h" and "expected_seq h \<le> 2 ^ 32"
    and rel: "spec_release (expected_seq h) (map_of (out_of_order h)) = (ps, a')"
  obtains hp d n' where "drain_ready h = (Inr (), (fold deliver ps h)
       \<lparr>ooo_heap := hp, out_of_order := d, expected_seq := n'\<rparr>)"
    and "a' = (n', map_of d)" and "expected_seq h \<le> n'"
    and "reorder_inv ((fold deliver ps h)\<lparr>ooo_heap := hp, out_of_order := d, expected_seq := n'\<rparr>)"
proof -
  let ?buf = "map_of (out_of_order h)" and ?n = "expected_seq h"
  let ?n' = "?n + int (run_length ?buf ?n)"
  from drain_ready_eq [OF assms(1)] keys obtain hp d where
    dr: "drain_ready h = (Inr (), (fold deliver (run ?buf ?n) h)
          \<lparr>ooo_heap := hp, out_of_order := d, expected_seq := ?n'\<rparr>)"
      "ooo.tracks hp d" "map_of d = ?buf |` {?n'..}"
    by blast
  have ps: "ps = run ?buf ?n" and a': "a' = (?n', map_of d)"
    using rel dr(3) by (auto simp: spec_release_def Let_def)
  have le: "?n' \<le> 2 ^ 32"
  proof (cases "run_length ?buf ?n")
    case (Suc m)
    then obtain p where "?buf (?n + int m) = Some p"
      using run_length_inside [of m ?buf ?n] by auto
    with keys [of "?n + int m" p] Suc show ?thesis by auto
  qed (use assms(4) in simp)
  have "?buf ?n' = None"
    by (rule run_length_end) (simp add: finite_dom_map_of)
  then have gt: "?n' < k" if "map_of d k = Some p" for k p
    using that dr(3) by (auto simp: restrict_map_def le_less split: if_splits)
  show thesis
  proof (rule that [OF _ a'])
    show "drain_ready h = (Inr (), (fold deliver ps h)
        \<lparr>ooo_heap := hp, out_of_order := d, expected_seq := ?n'\<rparr>)"
      using dr(1) by (simp add: ps)
  next
    show "reorder_inv ((fold deliver ps h)\<lparr>ooo_heap := hp, out_of_order := d, expected_seq := ?n'\<rparr>)"
      using dr(2,3) gt keys le assms(3)
      by (fastforce simp: reorder_inv_def restrict_map_def split: if_splits)
  qed simp
qed

lemma heap_update_same: "ooo_heap h = x \<Longrightarrow> h\<lparr>ooo_heap := x\<rparr> = h"
  by (rule host.equality) simp_all

lemma handle_in_order_refines:
  assumes inv: "reorder_inv h" and seq: "seq_num p = expected_seq h" "expected_seq h < 2 ^ 32"
    and spec: "spec_recv p (abs_reorder h) = (ps, a')"
  obtains hp d n' h4 where "h4 = (fold deliver ps h)\<lparr>ooo_heap := hp, out_of_order := d, expected_seq := n'\<rparr>"
    and "handle_in_order p h = credit_update h4" and "abs_reorder h4 = a'" and "reorder_inv h4"
    and "expected_seq h < n'"
proof -
  note i = reorder_invD [OF inv]
  define h3 where "h3 = (deliver p h)\<lparr>expected_seq := expected_seq h + 1\<rparr>"
  from spec seq(1) obtain qs where
    rel: "spec_release (expected_seq h3) (map_of (out_of_order h3)) = (qs, a')" and ps: "ps = p # qs"
    by (auto simp: spec_recv_def abs_reorder_def h3_def split: prod.splits)
  have "drop_stale (expected_seq h + 1) (ooo_heap h) = ooo_heap h"
    using ooo.tracks_top(1) [OF i(1)] i(2) by (intro drop_stale_noop) force
  then have hio: "handle_in_order p h = and_then (drain_ready h3) (\<lambda>_ h4. credit_update h4)"
    by (simp add: handle_in_order_def h3_def Let_def heap_update_same)
  have t: "ooo.tracks (ooo_heap h3) (out_of_order h3)"
    using i(1) by (simp add: h3_def)
  have k: "seq_num q = k \<and> expected_seq h3 \<le> k \<and> k < 2 ^ 32"
    if "map_of (out_of_order h3) k = Some q" for k q
    using that i(2-4) [of k] by (auto simp: h3_def dom_def)
  have r: "0 \<le> expected_seq h3" "expected_seq h3 \<le> 2 ^ 32"
    using i(5) seq(2) by (simp_all add: h3_def)
  obtain hp d n' where d: "drain_ready h3 = (Inr (), (fold deliver qs h3)
       \<lparr>ooo_heap := hp, out_of_order := d, expected_seq := n'\<rparr>)"
      "a' = (n', map_of d)" "expected_seq h3 \<le> n'"
      "reorder_inv ((fold deliver qs h3)\<lparr>ooo_heap := hp, out_of_order := d, expected_seq := n'\<rparr>)"
    by (rule drain_ready_refines [OF t k r rel])
  have "fold deliver qs h3 \<lparr>ooo_heap := hp, out_of_order := d, expected_seq := n'\<rparr> =
        fold deliver ps h \<lparr>ooo_heap := hp, out_of_order := d, expected_seq := n'\<rparr>"
    by (simp add: ps h3_def fold_deliver_update)
  with d show thesis
    by (intro that [OF refl]) (auto simp: hio abs_reorder_def h3_def)
qed

lemma store_future_refines:
  assumes inv: "reorder_inv h" and "expected_seq h < seq_num p" and "seq_num p < 2 ^ 32"
  shows "abs_reorder (store_future p h) = (expected_seq h, (map_of (out_of_order h))(seq_num p \<mapsto> p))"
    and "app (store_future p h) = app h" and "reorder_inv (store_future p h)"
proof -
  show "abs_reorder (store_future p h) = (expected_seq h, (map_of (out_of_order h))(seq_num p \<mapsto> p))"
    and "app (store_future p h) = app h"
    by (simp_all add: store_future_def Let_def abs_reorder_def AList.update_conv')
  note i = reorder_invD [OF inv]
  have "ooo.tracks (ooo_heap (store_future p h)) (out_of_order (store_future p h))"
    using ooo.tracks_push [OF i(1), of "seq_num p" p] ooo.tracks_overwrite [OF i(1), of "seq_num p" p]
    by (simp add: store_future_def Let_def)
  moreover have "seq_num q = k \<and> expected_seq h < k \<and> k < 2 ^ 32"
    if "map_of (out_of_order (store_future p h)) k = Some q" for k q
    using that inv assms(2,3)
    by (auto simp: store_future_def Let_def AList.update_conv' reorder_inv_def split: if_splits)
  moreover have "expected_seq (store_future p h) = expected_seq h"
    by (simp add: store_future_def Let_def)
  ultimately show "reorder_inv (store_future p h)"
    using i(5,6) by (simp add: reorder_inv_def)
qed

lemma count_track_frame [simp, frame]:
  defines "h1 \<equiv> \<lambda>data p h. track_highest p (count_packet data p h)"
  shows "expected_seq (h1 data p h) = expected_seq h" "out_of_order (h1 data p h) = out_of_order h"
    "ooo_heap (h1 data p h) = ooo_heap h" "app (h1 data p h) = app h"
    "on_data (h1 data p h) = on_data h" "window_size (h1 data p h) = window_size h"
    "credit_interval (h1 data p h) = credit_interval h" "abs_credit (h1 data p h) = abs_credit h"
    "running (h1 data p h) = running h" "outbox (h1 data p h) = outbox h"
    "pending_cmds (h1 data p h) = pending_cmds h" "next_cmd_id (h1 data p h) = next_cmd_id h"
    "credit_poll_ms (h1 data p h) = credit_poll_ms h" "cmd_timeout_ms (h1 data p h) = cmd_timeout_ms h"
    "pending_nacks (h1 data p h) = pending_nacks h"
    "nacks_sent (stats (h1 data p h)) = nacks_sent (stats h)"
    "packets_received (stats (h1 data p h)) = packets_received (stats h) + 1"
    "packets_processed (stats (h1 data p h)) = packets_processed (stats h)"
  by (simp_all add: h1_def track_highest_def count_packet_def Let_def)

text \<open>The three branches of \<open>_handle_data\<close>, seen from the state after the statistics.\<close>

lemma handle_data_cases:
  fixes h :: "'a host"
  assumes "LUDP_HDR_LEN \<le> length data" and "parse_data data = Inr p"
  defines "h1 \<equiv> track_highest p (count_packet data p h)"
  shows "seq_num p = expected_seq h \<Longrightarrow> handle_data data h = handle_in_order p h1"
    and "expected_seq h < seq_num p \<Longrightarrow> handle_data data h = (Inr (), store_future p h1)"
    and "seq_num p < expected_seq h \<Longrightarrow> handle_data data h = (Inr (), h1)"
  using assms by (simp_all add: handle_data_def Let_def)

lemma handle_data_in_order:
  assumes inv: "reorder_inv h" and len: "LUDP_HDR_LEN \<le> length data" and p: "parse_data data = Inr p"
    and seq: "seq_num p = expected_seq h" and spec: "spec_recv p (abs_reorder h) = (ps, a')"
  obtains hp d n' h4 where
    "h4 = (fold deliver ps (track_highest p (count_packet data p h)))
       \<lparr>ooo_heap := hp, out_of_order := d, expected_seq := n'\<rparr>"
    and "handle_data data h = credit_update h4" and "abs_reorder h4 = a'" and "reorder_inv h4"
    and "expected_seq h < n'"
proof -
  let ?h = "track_highest p (count_packet data p h)"
  have inv1: "reorder_inv ?h" and spec1: "spec_recv p (abs_reorder ?h) = (ps, a')"
    using inv spec reorder_inv_cong [of ?h h] by (simp_all add: abs_reorder_def)
  have pre: "seq_num p = expected_seq ?h" "expected_seq ?h < 2 ^ 32"
    using parse_data_seq_range [OF p len] seq by simp_all
  obtain hp d n' h4 where h4:
      "h4 = (fold deliver ps ?h)\<lparr>ooo_heap := hp, out_of_order := d, expected_seq := n'\<rparr>"
      "handle_in_order p ?h = credit_update h4" "abs_reorder h4 = a'" "reorder_inv h4"
      "expected_seq ?h < n'"
    by (rule handle_in_order_refines [OF inv1 pre spec1])
  then show thesis
    using handle_data_cases(1) [OF len p seq] by (intro that) auto
qed

lemma handle_data_simulates:
  assumes inv: "reorder_inv h" and len: "LUDP_HDR_LEN \<le> length data" and p: "parse_data data = Inr p"
    and spec: "spec_recv p (abs_reorder h) = (ps, a')"
  shows "abs_reorder (snd (handle_data data h)) = a'"
    and "app (snd (handle_data data h)) = handed_over h ps"
    and "reorder_inv (snd (handle_data data h))"
proof -
  let ?h = "track_highest p (count_packet data p h)"
  let ?h' = "snd (handle_data data h)"
  note seq = parse_data_seq_range [OF p len]
  have inv1: "reorder_inv ?h"
    using inv reorder_inv_cong [of ?h h] by simp
  have ho: "handed_over ?h qs = handed_over h qs" for qs
    by (simp add: handed_over_def split: option.split)
  consider "seq_num p = expected_seq h" | "expected_seq h < seq_num p" | "seq_num p < expected_seq h"
    by linarith
  then have "abs_reorder ?h' = a' \<and> app ?h' = handed_over h ps \<and> reorder_inv ?h'"
  proof cases
    case 1
    obtain hp d n' h4 where h4:
        "h4 = (fold deliver ps ?h)\<lparr>ooo_heap := hp, out_of_order := d, expected_seq := n'\<rparr>"
        "handle_data data h = credit_update h4" "abs_reorder h4 = a'" "reorder_inv h4"
      by (rule handle_data_in_order [OF inv len p 1 spec])
    with credit_frameD [OF credit_update_frame [of h4]] h4 reorder_inv_cong [of ?h' h4] show ?thesis
      by (simp add: abs_reorder_def app_fold_deliver ho)
  next
    case 2
    then show ?thesis
      using handle_data_cases(2) [OF len p 2] store_future_refines [OF inv1 _ seq(2)] spec
      by (auto simp: spec_recv_def abs_reorder_def handed_over_def split: option.split)
  next
    case 3
    then show ?thesis
      using handle_data_cases(3) [OF len p 3] inv1 spec
      by (auto simp: spec_recv_def abs_reorder_def handed_over_def split: option.split)
  qed
  then show "abs_reorder ?h' = a'" and "app ?h' = handed_over h ps" and "reorder_inv ?h'"
    by auto
qed

end
