(* ===== verification/Ludp_Fpga.thy ===== *)
theory Ludp_Fpga
  imports Ludp_Wire
begin

text \<open>
  The FPGA's side of the protocol at the level of whole packets: the datagrams
  \<open>rtl/ludp_protocol_tx.sv\<close> puts together from its two header beats, the reaction of
  \<open>rtl/ludp_protocol_rx.sv\<close> to a complete 16-byte control packet and the registers of
  \<open>rtl/ludp_protocol.sv\<close> it updates. Clock cycles, stalls and the retransmit buffer are
  abstracted: one step is one packet (the clocked modules are in the theories \<open>Rtl_*\<close>, which
  implement this one). Shown: the host parses what the FPGA sends, and the FPGA
  reacts to what the host builds.
\<close>

section \<open>Sending\<close>

abbreviation TYPE_DATA :: "8 word" where "TYPE_DATA \<equiv> 0x01"
abbreviation TYPE_CMD :: "8 word" where "TYPE_CMD \<equiv> 0x02"
abbreviation TYPE_NACK :: "8 word" where "TYPE_NACK \<equiv> 0x03"
abbreviation TYPE_CMD_ACK :: "8 word" where "TYPE_CMD_ACK \<equiv> 0x04"
abbreviation TYPE_CMD_CPL :: "8 word" where "TYPE_CMD_CPL \<equiv> 0x05"
abbreviation TYPE_CREDIT :: "8 word" where "TYPE_CREDIT \<equiv> 0x06"
abbreviation MAGIC :: "16 word" where "MAGIC \<equiv> 0xDA01"

text \<open>The Verilog concatenation \<open>{s, f, t, MAGIC}\<close> of the first beat and \<open>{c, b, a}\<close> of the
  second one; the bus sends the least significant byte first.\<close>

definition beat0 :: "32 word \<Rightarrow> 8 word \<Rightarrow> 8 word \<Rightarrow> 64 word" where
  "beat0 s f t = word_cat s (word_cat f (word_cat t MAGIC :: 24 word) :: 32 word)"

definition beat1 :: "16 word \<Rightarrow> 32 word \<Rightarrow> 16 word \<Rightarrow> 64 word" where
  "beat1 c b a = word_cat c (word_cat b a :: 48 word)"

definition beat_bytes :: "64 word \<Rightarrow> bytes" where
  "beat_bytes w = le_bytes 8 (uint w)"

definition fpga_data_packet :: "32 word \<Rightarrow> 16 word \<Rightarrow> bytes \<Rightarrow> bytes" where
  "fpga_data_packet rd_pkt_seq rd_pkt_size pl =
     beat_bytes (beat0 rd_pkt_seq 0x00 TYPE_DATA) @ beat_bytes (beat1 0x0000 0x0 rd_pkt_size) @ pl"

record resp_regs =
  resp_opcode :: "16 word"
  resp_cmd_id :: "32 word"
  resp_status :: "8 word"
  resp_data :: "32 word"
  resp_is_cpl :: bool

definition fpga_response :: "resp_regs \<Rightarrow> bytes" where
  "fpga_response r =
     (if resp_is_cpl r
      then beat_bytes (beat0 (resp_cmd_id r) (resp_status r) TYPE_CMD_CPL)
           @ beat_bytes (beat1 0x0000 (resp_data r) (resp_opcode r))
      else beat_bytes (beat0 (resp_cmd_id r) (resp_status r) TYPE_CMD_ACK)
           @ beat_bytes (beat1 0x0000 0x0 (resp_opcode r)))"

section \<open>State and steps\<close>

record fpga =
  seq_num_reg :: "32 word"
  credit_limit_reg :: "32 word"
  f2h_tx_enabled_reg :: bool
  resp_reg :: "resp_regs option"   \<comment> \<open>the pending response, \<open>resp_ongoing\<close>\<close>

definition fpga_reset :: fpga where
  "fpga_reset = \<lparr>seq_num_reg = 0, credit_limit_reg = 0, f2h_tx_enabled_reg = False, resp_reg = None\<rparr>"

text \<open>The window test of the transmitter, on signed 32-bit differences.\<close>

definition f2h_tx_ok :: "fpga \<Rightarrow> bool" where
  "f2h_tx_ok f \<longleftrightarrow> f2h_tx_enabled_reg f \<and> sint (credit_limit_reg f - seq_num_reg f) > 0"

text \<open>A live data packet leaves and the sequence number advances.\<close>

definition fpga_send :: "bytes \<Rightarrow> fpga \<Rightarrow> (bytes \<times> fpga) option" where
  "fpga_send pl f =
     (if f2h_tx_ok f
      then Some (fpga_data_packet (seq_num_reg f) (word_of_nat (length pl)) pl,
                 f\<lparr>seq_num_reg := seq_num_reg f + 1\<rparr>)
      else None)"

text \<open>A complete control packet of two beats arrives (\<open>rx_pkt_complete\<close>). A command is skipped
  while a response is pending.\<close>

definition fpga_recv :: "bytes \<Rightarrow> fpga \<Rightarrow> fpga" where
  "fpga_recv data f =
     (let r = rx_header data \<lparr>rx_magic_reg = 0, rx_type_reg = 0, rx_flags_reg = 0, rx_seq_reg = 0,
                rx_opcode_reg = 0, rx_arg1_reg = 0, rx_arg2_reg = 0\<rparr>
      in if rx_magic_reg r \<noteq> MAGIC then f
         else if rx_type_reg r = TYPE_CMD then
           (if resp_reg f \<noteq> None then f
            else let f1 = f\<lparr>resp_reg := Some \<lparr>resp_opcode = rx_opcode_reg r, resp_cmd_id = rx_seq_reg r,
                       resp_status = 0, resp_data = (if rx_flags_reg r = 0 then 0
                         else if f2h_tx_enabled_reg f then 0x80000000 else 0),
                       resp_is_cpl = (rx_flags_reg r \<noteq> 0)\<rparr>\<rparr>
                 in if rx_opcode_reg r = 0x0001
                    then f1\<lparr>f2h_tx_enabled_reg := True, seq_num_reg := 0, credit_limit_reg := 0\<rparr>
                    else if rx_opcode_reg r = 0x0002 then f1\<lparr>f2h_tx_enabled_reg := False\<rparr>
                    else f1)
         else if rx_type_reg r = TYPE_CREDIT then
           (if sint (rx_seq_reg r - credit_limit_reg f) > 0
            then f\<lparr>credit_limit_reg := rx_seq_reg r\<rparr> else f)
         else f)"

text \<open>The pending response is sent.\<close>

definition fpga_respond :: "fpga \<Rightarrow> (bytes \<times> fpga) option" where
  "fpga_respond f = map_option (\<lambda>r. (fpga_response r, f\<lparr>resp_reg := None\<rparr>)) (resp_reg f)"

section \<open>Layout of the beats\<close>

lemma uint_word_cat:
  assumes "LENGTH('a) + LENGTH('b) \<le> LENGTH('c)"
  shows "uint (word_cat (a :: 'a::len word) (b :: 'b::len word) :: 'c::len word) =
    2 ^ LENGTH('b) * uint a + uint b"
proof -
  have "uint a < 2 ^ LENGTH('a)" "uint b < 2 ^ LENGTH('b)" by simp_all
  then have "2 ^ LENGTH('b) * uint a + uint b < 2 ^ LENGTH('b) * (uint a + 1)"
    by (simp add: algebra_simps)
  also have "\<dots> \<le> 2 ^ LENGTH('b) * 2 ^ LENGTH('a)"
    using uint_lt2p [of a] by (intro mult_left_mono) (linarith, simp)
  also have "\<dots> \<le> 2 ^ LENGTH('c)"
    using assms by (simp add: add.commute flip: power_add)
  finally have "2 ^ LENGTH('b) * uint a + uint b < 2 ^ LENGTH('c)" .
  moreover have "(word_cat a b :: 'c word) = word_of_int (2 ^ LENGTH('b) * uint a + uint b)"
    by (simp only: word_cat_eq' concat_bit_eq push_bit_eq_mult)
      (simp add: take_bit_int_eq_self mult.commute add.commute)
  ultimately show ?thesis
    by (simp only: uint_word_of_int) simp
qed

lemma le_bytes_split:
  "0 \<le> a \<Longrightarrow> a < 256 ^ m \<Longrightarrow> le_bytes (m + n) (a + 256 ^ m * b) = le_bytes m a @ le_bytes n b"
proof (induction m arbitrary: a)
  case 0
  then have "a = 0" by simp
  then show ?case by simp
next
  case (Suc m)
  have w: "(word_of_int (256 * x) :: byte) = 0" for x by simp
  have "a div 256 < 256 ^ m" and "0 \<le> a div 256"
    using Suc.prems by (auto simp: div_less_iff_less_mult mult.commute pos_imp_zdiv_nonneg_iff)
  then have "le_bytes (m + n) (a div 256 + 256 ^ m * b) = le_bytes m (a div 256) @ le_bytes n b"
    by (intro Suc.IH)
  moreover have "(a + 256 ^ Suc m * b) div 256 = a div 256 + 256 ^ m * b"
    by (simp add: mult.assoc)
  moreover have "(word_of_int (a + 256 ^ Suc m * b) :: byte) = word_of_int a"
    using w [of "256 ^ m * b"] by (simp add: mult.assoc)
  ultimately show ?case by simp
qed

lemma header_packed:
  "struct_pack Little header_fmt [0xDA01, uint t, uint f, uint s, uint a, uint b, uint c] =
     Inr (beat_bytes (beat0 s f t) @ beat_bytes (beat1 c b a))"
proof -
  have r: "0 \<le> uint t" "uint t < 256" "0 \<le> uint f" "uint f < 256" "0 \<le> uint s" "uint s < 4294967296"
      "0 \<le> uint a" "uint a < 65536" "0 \<le> uint b" "uint b < 4294967296" "0 \<le> uint c" "uint c < 65536"
    using uint_lt2p [of t] uint_lt2p [of f] uint_lt2p [of s] uint_lt2p [of a] uint_lt2p [of b]
      uint_lt2p [of c] by simp_all
  have "uint (beat0 s f t) = 0xDA01 + 256 ^ 2 * (uint t + 256 ^ 1 * (uint f + 256 ^ 1 * uint s))"
    by (simp add: beat0_def uint_word_cat)
  moreover have "uint (beat1 c b a) = uint a + 256 ^ 2 * (uint b + 256 ^ 4 * uint c)"
    by (simp add: beat1_def uint_word_cat)
  moreover note le_bytes_split [of "0xDA01" 2 6] le_bytes_split [of "uint t" 1 5]
    le_bytes_split [of "uint f" 1 4] le_bytes_split [of "uint a" 2 6] le_bytes_split [of "uint b" 4 2]
  ultimately show ?thesis
    using r by (simp add: header_fmt_def pack_int_def beat_bytes_def
        del: le_bytes.simps distrib_left_numeral distrib_right_numeral)
qed

lemma length_beat_bytes [simp]: "length (beat_bytes w) = 8"
  by (simp add: beat_bytes_def)

section \<open>The host reads what the FPGA sends\<close>

lemma parse_fpga_data:
  "parse_data (fpga_data_packet s sz pl) = Inr \<lparr>magic = LUDP_MAGIC, pkt_type = PKT_DATA, flags = 0,
     seq_num = uint s, payload_len = uint sz, timestamp = 0, payload = pl\<rparr>"
  using parse_header [OF header_packed [of TYPE_DATA 0 s sz 0 0], of pl]
  by (simp add: fpga_data_packet_def ludp_consts)

lemma fpga_response_fields:
  shows "length (fpga_response r) = 16"
    and "le_value (py_slice 0 2 (fpga_response r)) = LUDP_MAGIC"
    and "uint (fpga_response r ! 2) = (if resp_is_cpl r then PKT_CMD_CPL else PKT_CMD_ACK)"
    and "le_value (py_slice 4 8 (fpga_response r)) = uint (resp_cmd_id r)"
    and "resp_is_cpl r \<Longrightarrow> le_value (py_slice 10 14 (fpga_response r)) = uint (resp_data r)"
  using header_slices(2-) [OF header_packed [of TYPE_CMD_CPL "resp_status r" "resp_cmd_id r" "resp_opcode r" "resp_data r" 0], of "[]"]
    header_slices(2-) [OF header_packed [of TYPE_CMD_ACK "resp_status r" "resp_cmd_id r" "resp_opcode r" 0 0], of "[]"]
  by (auto simp: fpga_response_def ludp_consts)

section \<open>The FPGA reacts to what the host builds\<close>

lemma fpga_recv_header:
  assumes "struct_pack Little header_fmt [m, t, fl, s, op, a1, a2] = Inr bs"
  shows "fpga_recv bs f =
     (if m \<noteq> LUDP_MAGIC then f
      else if t = PKT_CMD then
        (if resp_reg f \<noteq> None then f
         else let f1 = f\<lparr>resp_reg := Some \<lparr>resp_opcode = word_of_int op, resp_cmd_id = word_of_int s,
                    resp_status = 0, resp_data = (if fl = 0 then 0
                      else if f2h_tx_enabled_reg f then 0x80000000 else 0),
                    resp_is_cpl = (fl \<noteq> 0)\<rparr>\<rparr>
              in if op = CMD_START
                 then f1\<lparr>f2h_tx_enabled_reg := True, seq_num_reg := 0, credit_limit_reg := 0\<rparr>
                 else if op = CMD_STOP then f1\<lparr>f2h_tx_enabled_reg := False\<rparr>
                 else f1)
      else if t = PKT_CREDIT \<and> sint (word_of_int s - credit_limit_reg f) > 0
        then f\<lparr>credit_limit_reg := word_of_int s\<rparr> else f)"
proof -
  note h = header_bytes(2-) [OF assms]
  have e: "(word_of_int m :: 16 word) = 0xDA01 \<longleftrightarrow> m = LUDP_MAGIC"
      "(word_of_int t :: 8 word) = 2 \<longleftrightarrow> t = PKT_CMD" "(word_of_int t :: 8 word) = 6 \<longleftrightarrow> t = PKT_CREDIT"
      "(word_of_int fl :: 8 word) = 0 \<longleftrightarrow> fl = 0"
      "(word_of_int op :: 16 word) = 1 \<longleftrightarrow> op = CMD_START" "(word_of_int op :: 16 word) = 2 \<longleftrightarrow> op = CMD_STOP"
    using h by (auto simp: word_uint_eq_iff uint_word_of_int ludp_consts)
  show ?thesis
    by (simp add: fpga_recv_def rx_header_pack [OF assms] e Let_def)
qed

lemma sint_diff_small:
  assumes "0 \<le> a" "a < 2 ^ 31" "0 \<le> b" "b < 2 ^ 31"
  shows "sint (word_of_int a - word_of_int b :: 32 word) = a - b"
proof -
  have "word_of_int a - word_of_int b = (word_of_int (a - b) :: 32 word)" by simp
  moreover have "sint (word_of_int (a - b) :: 32 word) = a - b"
    using assms by (subst sint_sbintrunc') (simp add: signed_take_bit_int_eq_self)
  ultimately show ?thesis by (simp only:)
qed

end
