(* ===== verification/Ludp_Loop.thy ===== *)
theory Ludp_Loop
  imports Ludp_Recv Ludp_Fpga
begin

text \<open>
  The receive thread: the exceptions its handlers can raise, the dispatch of a datagram, and
  whole runs of \<open>_recv_loop\<close>, which implement the abstract reordering machine.
\<close>

section \<open>Frames\<close>

lemma store_future_frame [simp, frame]:
  "on_data (store_future p h) = on_data h" "window_size (store_future p h) = window_size h"
  "credit_interval (store_future p h) = credit_interval h" "running (store_future p h) = running h"
  "abs_credit (store_future p h) = abs_credit h" "expected_seq (store_future p h) = expected_seq h"
  "outbox (store_future p h) = outbox h" "pending_cmds (store_future p h) = pending_cmds h"
  "next_cmd_id (store_future p h) = next_cmd_id h" "app (store_future p h) = app h"
  "credit_poll_ms (store_future p h) = credit_poll_ms h"
  "cmd_timeout_ms (store_future p h) = cmd_timeout_ms h"
  "pending_nacks (store_future p h) = pending_nacks h"
  "nacks_sent (stats (store_future p h)) = nacks_sent (stats h)"
  "packets_received (stats (store_future p h)) = packets_received (stats h)"
  "packets_processed (stats (store_future p h)) = packets_processed (stats h)"
  by (simp_all add: store_future_def Let_def)

section \<open>Exceptions\<close>

definition credit_fits :: "int \<Rightarrow> bool" where
  "credit_fits c \<longleftrightarrow> 0 \<le> c \<and> c < 2 ^ 32"

lemma fst_send_credit: "fst (send_credit c h) = (if credit_fits c then Inr () else Inl StructError)"
  by (cases rule: send_credit_cases [of c h]) (auto simp: credit_fits_def)

lemma fst_advance_credit:
  "fst (advance_credit h) =
     (if abs_credit h < expected_seq h + window_size h \<and> \<not> credit_fits (expected_seq h + window_size h)
      then Inl StructError else Inr ())"
  using fst_send_credit [of "expected_seq h + window_size h" h]
  by (auto simp: advance_credit_def Let_def and_then_def)

lemma fst_credit_update:
  "fst (credit_update h) =
     (if credit_interval h = 0 then Inl ZeroDivisionError
      else if expected_seq h mod credit_interval h = 0 \<and> abs_credit h < expected_seq h + window_size h
              \<and> \<not> credit_fits (expected_seq h + window_size h)
      then Inl StructError else Inr ())"
  by (simp add: credit_update_def fst_advance_credit)

lemma handle_data_error:
  assumes inv: "reorder_inv h" and err: "handle_data data h = (Inl e, h')"
  shows "e = ZeroDivisionError \<and> credit_interval h = 0 \<or>
    e = StructError \<and> \<not> credit_fits (expected_seq h' + window_size h)"
proof -
  have len: "LUDP_HDR_LEN \<le> length data"
    using err by (auto simp: handle_data_def split: if_splits)
  obtain p where p: "parse_data data = Inr p"
    using parse_data_ok [OF len] by blast
  obtain ps a' where spec: "spec_recv p (abs_reorder h) = (ps, a')" by (rule prod.exhaust)
  have seq: "seq_num p = expected_seq h"
    using handle_data_cases [OF len p, of h] err by (cases rule: linorder_cases [of "seq_num p" "expected_seq h"]) auto
  obtain hp d n' h4 where h4:
      "h4 = (fold deliver ps (track_highest p (count_packet data p h)))
         \<lparr>ooo_heap := hp, out_of_order := d, expected_seq := n'\<rparr>"
      "handle_data data h = credit_update h4"
    by (rule handle_data_in_order [OF inv len p seq spec])
  have cu: "credit_update h4 = (Inl e, h')"
    using h4(2) err by simp
  then have "expected_seq h' = expected_seq h4" and "fst (credit_update h4) = Inl e"
    using credit_frameD(1) [OF credit_update_frame [of h4]] by simp_all
  moreover have "window_size h4 = window_size h" and "credit_interval h4 = credit_interval h"
    by (simp_all add: h4(1))
  ultimately show ?thesis
    by (auto simp: fst_credit_update split: if_splits)
qed

section \<open>Dispatch\<close>

definition data_of :: "bytes \<Rightarrow> LudpDataPacket option" where
  \<comment> \<open>the packet of a datagram that the loop passes to \<open>_handle_data\<close>\<close>
  "data_of d =
     (if LUDP_HDR_LEN \<le> length d \<and> le_value (py_slice 0 2 d) = LUDP_MAGIC \<and> uint (d ! 2) = PKT_DATA
      then (case parse_data d of Inl e \<Rightarrow> None | Inr p \<Rightarrow> Some p) else None)"

lemma data_of_Some:
  assumes "data_of d = Some p"
  shows "LUDP_HDR_LEN \<le> length d" and "parse_data d = Inr p" and "recv_datagram d h = handle_data d h"
    and "0 \<le> seq_num p" and "seq_num p < 2 ^ 32"
proof -
  show len: "LUDP_HDR_LEN \<le> length d" and p: "parse_data d = Inr p"
    using assms by (auto simp: data_of_def split: if_splits sum.splits)
  have "unpack1 Little FH (py_slice 0 2 d) = Inr LUDP_MAGIC" and "uint (d ! 2) = PKT_DATA"
    using assms len unpack1_eq [of "py_slice 0 2 d" FH Little]
    by (auto simp: data_of_def unpack_int_def LUDP_HDR_LEN_def split: if_splits)
  with len show "recv_datagram d h = handle_data d h"
    by (simp add: recv_datagram_def)
  show "0 \<le> seq_num p" and "seq_num p < 2 ^ 32"
    using parse_data_seq_range [OF p len] .
qed

lemma set_response_frame: "\<exists>pc. set_response c d h = h\<lparr>pending_cmds := pc\<rparr>"
proof (cases "map_of (pending_cmds h) c")
  case None
  then have "set_response c d h = h\<lparr>pending_cmds := pending_cmds h\<rparr>"
    by (simp add: set_response_def)
  then show ?thesis by blast
qed (auto simp: set_response_def)

lemma pending_same: "\<exists>pc. h = h\<lparr>pending_cmds := pc\<rparr>"
  by (rule exI [of _ "pending_cmds h"]) simp

lemma handle_cmd_ack_eq: "handle_cmd_ack d h =
    (Inr (), if length d < 12 then h else set_response (le_value (py_slice 4 8 d)) d h)"
  using unpack1_eq [of "py_slice 4 8 d" FI Little]
  by (simp add: handle_cmd_ack_def unpack_int_def)

lemma handle_cmd_cpl_eq: "handle_cmd_cpl d h =
    (Inr (), if length d < 16 then h else set_response (le_value (py_slice 4 8 d)) d h)"
  using unpack1_eq [of "py_slice 4 8 d" FI Little]
  by (simp add: handle_cmd_cpl_def unpack_int_def)

lemma data_of_None:
  assumes "data_of d = None"
  shows "\<exists>pc. recv_datagram d h = (Inr (), h\<lparr>pending_cmds := pc\<rparr>)"
proof (cases "length d < LUDP_HDR_LEN")
  case True
  then show ?thesis
    using pending_same [of h] by (simp add: recv_datagram_def)
next
  case False
  then have "uint (d ! 2) \<noteq> PKT_DATA" if "le_value (py_slice 0 2 d) = LUDP_MAGIC"
    using assms that parse_data_ok [of d] by (auto simp: data_of_def split: if_splits)
  then show ?thesis
    using False unpack1_eq [of "py_slice 0 2 d" FH Little] pending_same [of h]
      set_response_frame [of "le_value (py_slice 4 8 d)" d h]
    by (simp add: recv_datagram_def Let_def unpack_int_def handle_cmd_ack_eq handle_cmd_cpl_eq
        LUDP_HDR_LEN_def)
qed

section \<open>Whole runs\<close>

lemma handed_over_append:
  assumes "on_data h1 = on_data h" and "app h1 = handed_over h ps"
  shows "handed_over h1 qs = handed_over h (ps @ qs)"
  using assms by (simp add: handed_over_def split: option.splits)

lemma handed_over_Nil [simp]: "handed_over h [] = app h"
  by (simp add: handed_over_def split: option.split)

definition config_same :: "'a host \<Rightarrow> 'a host \<Rightarrow> bool" where
  "config_same h h' \<longleftrightarrow> on_data h' = on_data h \<and> window_size h' = window_size h
     \<and> credit_interval h' = credit_interval h \<and> running h' = running h"

lemma config_same_refl [simp]: "config_same h h"
  by (simp add: config_same_def)

lemma config_same_trans: "config_same h h1 \<Longrightarrow> config_same h1 h2 \<Longrightarrow> config_same h h2"
  by (simp add: config_same_def)

lemma handle_data_config:
  assumes inv: "reorder_inv h"
  shows "config_same h (snd (handle_data data h))"
proof (cases "LUDP_HDR_LEN \<le> length data")
  case True
  obtain p where p: "parse_data data = Inr p"
    using parse_data_ok [OF True] by blast
  obtain ps a' where spec: "spec_recv p (abs_reorder h) = (ps, a')" by (rule prod.exhaust)
  consider "seq_num p = expected_seq h" | "expected_seq h < seq_num p" | "seq_num p < expected_seq h"
    by linarith
  then show ?thesis
  proof cases
    case 1
    obtain hp d n' h4 where
        "h4 = (fold deliver ps (track_highest p (count_packet data p h)))
           \<lparr>ooo_heap := hp, out_of_order := d, expected_seq := n'\<rparr>"
        "handle_data data h = credit_update h4"
      by (rule handle_data_in_order [OF inv True p 1 spec])
    then show ?thesis
      using credit_frameD [OF credit_update_frame [of h4]] by (simp add: config_same_def)
  qed (simp_all add: handle_data_cases [OF True p] config_same_def)
qed (simp add: handle_data_def)

lemma recv_datagram_simulates:
  assumes "reorder_inv h"
    and "spec_run (case data_of d of None \<Rightarrow> [] | Some p \<Rightarrow> [p]) (abs_reorder h) = (ps, a')"
  shows "abs_reorder (snd (recv_datagram d h)) = a'"
    and "app (snd (recv_datagram d h)) = handed_over h ps"
    and "reorder_inv (snd (recv_datagram d h))"
    and "config_same h (snd (recv_datagram d h))"
proof -
  let ?h' = "snd (recv_datagram d h)"
  have "abs_reorder ?h' = a' \<and> app ?h' = handed_over h ps \<and> reorder_inv ?h' \<and> config_same h ?h'"
  proof (cases "data_of d")
    case None
    then obtain pc where "?h' = h\<lparr>pending_cmds := pc\<rparr>"
      using data_of_None [of d h] by force
    with assms None show ?thesis
      by (simp add: abs_reorder_def config_same_def reorder_inv_def)
  next
    case (Some p)
    note d = data_of_Some [OF Some]
    have "spec_recv p (abs_reorder h) = (ps, a')"
      using assms(2) Some by (auto split: prod.splits)
    from handle_data_simulates [OF assms(1) d(1,2) this] handle_data_config [OF assms(1), of d]
    show ?thesis by (simp add: d(3))
  qed
  then show "abs_reorder ?h' = a'" "app ?h' = handed_over h ps" "reorder_inv ?h'" "config_same h ?h'"
    by auto
qed

lemma spec_run_append:
  "spec_run (ps @ qs) a = (case spec_run ps a of (o1, a1) \<Rightarrow>
     (case spec_run qs a1 of (o2, a2) \<Rightarrow> (o1 @ o2, a2)))"
  by (induction ps arbitrary: a) (auto split: prod.splits)

definition data_packets :: "bytes list \<Rightarrow> LudpDataPacket list" where
  "data_packets ds = List.map_filter data_of ds"

lemma data_packets_simps [simp]:
  "data_packets [] = []"
  "data_packets (d # ds) = (case data_of d of None \<Rightarrow> [] | Some p \<Rightarrow> [p]) @ data_packets ds"
  by (simp_all add: data_packets_def List.map_filter_def split: option.split)

lemma recv_loop_simulates:
  assumes "reorder_inv h" and "recv_loop (map Datagram ds) h = (None, h')"
    and "spec_run (data_packets ds) (abs_reorder h) = (out, a')"
  shows "abs_reorder h' = a' \<and> app h' = handed_over h out \<and> reorder_inv h' \<and> config_same h h'"
  using assms
proof (induction ds arbitrary: h out)
  case Nil
  then show ?case by (auto split: if_splits)
next
  case (Cons d ds)
  let ?h1 = "snd (recv_datagram d h)"
  obtain o1 a1 o2 where
    s1: "spec_run (case data_of d of None \<Rightarrow> [] | Some p \<Rightarrow> [p]) (abs_reorder h) = (o1, a1)" and
    s2: "spec_run (data_packets ds) a1 = (o2, a')" and out: "out = o1 @ o2"
    using Cons.prems(3) by (auto simp: spec_run_append split: prod.splits)
  note r = recv_datagram_simulates [OF Cons.prems(1) s1]
  have "recv_loop (map Datagram ds) ?h1 = (None, h')"
    using Cons.prems(2) by (auto split: if_splits prod.splits sum.splits)
  from Cons.IH [OF r(3) this] s2 r(1)
  have "abs_reorder h' = a' \<and> app h' = handed_over ?h1 o2 \<and> reorder_inv h' \<and> config_same ?h1 h'"
    by simp
  with r show ?case
    using handed_over_append [of ?h1 h o1 o2] config_same_trans [of h ?h1 h']
    by (simp add: out config_same_def)
qed

section \<open>Runs that do not crash\<close>

definition spec_bound :: "int \<Rightarrow> reorder \<Rightarrow> bool" where
  "spec_bound B a \<longleftrightarrow> fst a \<le> B \<and> (\<forall>k \<in> dom (snd a). k < B)"

lemma spec_recv_bound:
  assumes "spec_bound B a" and "seq_num p < B" and "finite (dom (snd a))"
    and "spec_recv p a = (ps, a')"
  shows "spec_bound B a' \<and> finite (dom (snd a'))"
proof -
  obtain n buf where a: "a = (n, buf)" by fastforce
  show ?thesis
  proof (cases "seq_num p = n")
    case True
    let ?n' = "n + 1 + int (run_length buf (n + 1))"
    have a': "a' = (?n', buf |` {?n'..})"
      using assms(4) True by (auto simp: a spec_recv_def spec_release_def Let_def)
    have "?n' \<le> B"
    proof (cases "run_length buf (n + 1)")
      case (Suc m)
      with run_length_inside [of m buf "n + 1"] have "n + 1 + int m \<in> dom buf" by auto
      with assms(1) have "n + 1 + int m < B" by (auto simp: spec_bound_def a)
      with Suc show ?thesis by simp
    qed (use assms(2) True in simp)
    then show ?thesis
      using assms(1,3) by (auto simp: spec_bound_def a a')
  next
    case False
    with assms show ?thesis
      by (auto simp: spec_recv_def spec_bound_def a split: if_splits)
  qed
qed

lemma handle_data_no_error:
  assumes inv: "reorder_inv h" and "credit_interval h \<noteq> 0" and "0 \<le> window_size h"
    and "credit_fits (B + window_size h)" and "spec_bound B (abs_reorder h)"
    and "data_of d = Some p" and "seq_num p < B"
  shows "fst (recv_datagram d h) = Inr ()" and "spec_bound B (abs_reorder (snd (recv_datagram d h)))"
proof -
  note d = data_of_Some [OF assms(6)]
  obtain ps a' where spec: "spec_recv p (abs_reorder h) = (ps, a')" by (rule prod.exhaust)
  note sim = handle_data_simulates [OF inv d(1,2) spec]
  have fin: "finite (dom (snd (abs_reorder h)))"
    by (simp add: abs_reorder_def finite_dom_map_of)
  from spec_recv_bound [OF assms(5,7) fin spec] sim(1)
  show b: "spec_bound B (abs_reorder (snd (recv_datagram d h)))"
    by (simp add: d(3))
  have "0 \<le> expected_seq (snd (handle_data d h))"
    using reorder_invD(5) [OF sim(3)] .
  then have "credit_fits (expected_seq (snd (handle_data d h)) + window_size h)"
    using b assms(3,4) by (simp add: spec_bound_def credit_fits_def abs_reorder_def d(3))
  then show "fst (recv_datagram d h) = Inr ()"
    using handle_data_error [OF inv, of d] assms(2)
    by (cases "handle_data d h"; cases "fst (handle_data d h)") (auto simp: d(3))
qed

lemma recv_loop_no_crash:
  assumes "reorder_inv h" and "running h" and "credit_interval h \<noteq> 0" and "0 \<le> window_size h"
    and "credit_fits (B + window_size h)" and "spec_bound B (abs_reorder h)"
    and "\<forall>p \<in> set (data_packets ds). seq_num p < B"
  shows "\<exists>h'. recv_loop (map Datagram ds) h = (None, h')"
  using assms
proof (induction ds arbitrary: h)
  case Nil
  then show ?case by simp
next
  case (Cons d ds)
  let ?h1 = "snd (recv_datagram d h)"
  obtain o1 a1 where
    s1: "spec_run (case data_of d of None \<Rightarrow> [] | Some p \<Rightarrow> [p]) (abs_reorder h) = (o1, a1)"
    by (rule prod.exhaust)
  note r = recv_datagram_simulates [OF Cons.prems(1) s1]
  have ok: "fst (recv_datagram d h) = Inr ()" "spec_bound B (abs_reorder ?h1)"
    using Cons.prems handle_data_no_error [OF Cons.prems(1,3,4,5,6)] data_of_None [of d h]
    by (cases "data_of d"; force simp: abs_reorder_def)+
  have "\<exists>h'. recv_loop (map Datagram ds) ?h1 = (None, h')"
    using Cons.prems r(3,4) ok(2) by (intro Cons.IH) (auto simp: config_same_def split: option.splits)
  then show ?case
    using Cons.prems(2) ok(1) by (cases "recv_datagram d h") auto
qed

section \<open>In-order delivery\<close>

text \<open>A host whose callback logs the packets it gets.\<close>

definition log_packet :: "LudpDataPacket \<Rightarrow> LudpDataPacket list \<Rightarrow> LudpDataPacket list" where
  "log_packet p l = l @ [p]"

lemma fold_log_packet [simp]: "fold log_packet ps l = l @ ps"
  by (induction ps arbitrary: l) (auto simp: log_packet_def)

definition logging_host :: "int \<Rightarrow> int \<Rightarrow> LudpDataPacket list host" where
  "logging_host window interval =
     start_host 0 (init_host ''192.168.1.128'' LUDP_PORT window interval 5 5 100 (Some log_packet) [])"

lemma logging_host_simps [simp]:
  "reorder_inv (logging_host w i)" "abs_reorder (logging_host w i) = (0, Map.empty)"
  "running (logging_host w i)" "credit_interval (logging_host w i) = i"
  "window_size (logging_host w i) = w" "on_data (logging_host w i) = Some log_packet"
  "app (logging_host w i) = []" "handed_over (logging_host w i) ps = ps"
  by (simp_all add: logging_host_def start_host_def init_host_def reorder_inv_empty abs_reorder_def
      handed_over_def)

text \<open>
  C1: Whatever order, loss and duplication the datagrams arrive in, the receive thread of a fresh
  host does not crash (as long as the credits fit 32 bits and the credit interval is not 0) and
  hands the packets to the application exactly once each, in sequence order from 0 up to the first
  sequence number that never arrived.
\<close>

theorem recv_in_order_delivery:
  assumes "interval \<noteq> 0" and "credit_fits window"
    and "\<forall>p \<in> set (data_packets ds). credit_fits (seq_num p + 1 + window)"
  shows "\<exists>h. recv_loop (map Datagram ds) (logging_host window interval) = (None, h)
     \<and> map seq_num (app h) = map int [0..<nat (expected_seq h)]
     \<and> set (app h) \<subseteq> set (data_packets ds)
     \<and> {0..<expected_seq h} \<subseteq> seq_num ` set (data_packets ds)
     \<and> expected_seq h \<notin> seq_num ` set (data_packets ds)"
proof -
  let ?h0 = "logging_host window interval" and ?ps = "data_packets ds"
  let ?B = "2 ^ 32 - 1 - window"
  have "\<exists>h. recv_loop (map Datagram ds) ?h0 = (None, h)"
    by (rule recv_loop_no_crash [of _ ?B]) (use assms in \<open>auto simp: credit_fits_def spec_bound_def\<close>)
  then obtain h where h: "recv_loop (map Datagram ds) ?h0 = (None, h)" ..
  obtain out a' where s: "spec_run ?ps (abs_reorder ?h0) = (out, a')" by (rule prod.exhaust)
  have nonneg: "\<forall>p \<in> set ?ps. 0 \<le> seq_num p"
    using data_of_Some(4) by (auto simp: data_packets_def List.map_filter_def)
  have "abs_reorder h = a'" and "app h = out"
    using recv_loop_simulates [OF _ h s] by simp_all
  moreover have "spec_inv (set ?ps) out a'"
    using spec_run_inv [OF spec_inv_init nonneg, of out a'] s by simp
  ultimately show ?thesis
    using h by (auto simp: spec_inv_def abs_reorder_def)
qed

definition sample_datagrams :: "bytes list" where
  "sample_datagrams = [fpga_data_packet 1 2 [7, 8], fpga_data_packet 0 2 [5, 6], fpga_data_packet 1 2 [7, 8]]"

lemma sample_packets: "map seq_num (data_packets sample_datagrams) = [1, 0, 1]"
  by code_simp

theorem recv_in_order_delivery_witness:
  "\<exists>h. recv_loop (map Datagram sample_datagrams) (logging_host 256 8) = (None, h)
     \<and> map seq_num (app h) = map int [0..<nat (expected_seq h)]
     \<and> set (app h) \<subseteq> set (data_packets sample_datagrams)
     \<and> {0..<expected_seq h} \<subseteq> seq_num ` set (data_packets sample_datagrams)
     \<and> expected_seq h \<notin> seq_num ` set (data_packets sample_datagrams)"
proof (rule recv_in_order_delivery)
  show "\<forall>p \<in> set (data_packets sample_datagrams). credit_fits (seq_num p + 1 + 256)"
    by code_simp
qed (simp_all add: credit_fits_def)

section \<open>The handler and the loop\<close>

text \<open>C4: \<open>_handle_data\<close> implements the abstract reordering machine: from a state that satisfies the
  invariant of the reorder buffer, the handler of any data packet moves the abstract state as
  \<open>spec_recv\<close> says, hands over exactly the packets \<open>spec_recv\<close> releases, in that order, and keeps the
  invariant, also when its credit update raises.\<close>

theorem handle_data_refines:
  assumes "reorder_inv h" and "LUDP_HDR_LEN \<le> length data" and "parse_data data = Inr p"
    and "spec_recv p (abs_reorder h) = (ps, a')"
  shows "abs_reorder (snd (handle_data data h)) = a' \<and> app (snd (handle_data data h)) = handed_over h ps
    \<and> reorder_inv (snd (handle_data data h))"
  using handle_data_simulates [OF assms] by blast

theorem handle_data_refines_witness:
  "abs_reorder (snd (handle_data (fpga_data_packet 3 1 [9]) (logging_host 256 8))) =
     (0, Map.empty(3 \<mapsto> \<lparr>magic = LUDP_MAGIC, pkt_type = PKT_DATA, flags = 0, seq_num = 3, payload_len = 1, timestamp = 0, payload = [9]\<rparr>))
   \<and> app (snd (handle_data (fpga_data_packet 3 1 [9]) (logging_host 256 8))) = handed_over (logging_host 256 8) []
   \<and> reorder_inv (snd (handle_data (fpga_data_packet 3 1 [9]) (logging_host 256 8)))"
  by (rule handle_data_refines [OF _ _ parse_fpga_data])
    (simp_all add: fpga_data_packet_def LUDP_HDR_LEN_def spec_recv_def)



lemma recv_loop_append:
  "recv_loop (map Datagram ds @ rs) h =
    (case recv_loop (map Datagram ds) h of (None, h') \<Rightarrow> recv_loop rs h' | (Some e, h') \<Rightarrow> (Some e, h'))"
proof (induction ds arbitrary: h)
  case Nil
  then show ?case by (cases rs) simp_all
next
  case (Cons d ds)
  then show ?case
    by (cases "running h"; cases "recv_datagram d h"; cases "fst (recv_datagram d h)") auto
qed

text \<open>Any \<open>OSError\<close> of \<open>recvfrom\<close> ends the receive thread for good, a timeout included (a
  \<open>socket.timeout\<close> is an \<open>OSError\<close>, and \<open>drain_socket\<close> sets a timeout on the same socket): what
  arrives later changes nothing.\<close>

theorem recv_error_is_final:
  assumes "recv_loop (map Datagram ds) h = (None, h')"
  shows "recv_loop (map Datagram ds @ OSError # rs) h = (Some SocketError, h')"
proof -
  have "running h'" using assms
    by (induction ds arbitrary: h) (auto split: if_splits prod.splits sum.splits)
  with assms show ?thesis
    by (simp add: recv_loop_append)
qed

theorem recv_error_is_final_witness:
  "recv_loop (map Datagram [] @ OSError # [Datagram (fpga_data_packet 0 1 [9])]) (logging_host 256 8)
     = (Some SocketError, logging_host 256 8)"
  by (rule recv_error_is_final) simp

text \<open>C25: Sequence numbers do not wrap on the host. When the packet that fills the stream up to a credit
  of \<open>2\<^sup>32\<close> arrives, the credit cannot be packed and \<open>struct.error\<close> ends the receive thread; later
  datagrams, such as the packet with sequence number 0 after the FPGA's counter wraps, are not
  handled.\<close>

theorem credit_overflow_ends_receiver:
  assumes "reorder_inv h" and "running h" and "out_of_order h = []" and "data_of d = Some p"
    and "seq_num p = expected_seq h" and "credit_interval h \<noteq> 0"
    and "(expected_seq h + 1) mod credit_interval h = 0"
    and "abs_credit h < expected_seq h + 1 + window_size h" and "2 ^ 32 \<le> expected_seq h + 1 + window_size h"
  shows "\<exists>h'. recv_loop (Datagram d # rs) h = (Some (Crashed StructError), h') \<and> app h' = handed_over h [p]"
proof -
  note dd = data_of_Some [OF assms(4)]
  have spec: "spec_recv p (abs_reorder h) = ([p], (expected_seq h + 1, Map.empty))"
    using assms(3,5) by (simp add: spec_recv_def abs_reorder_def spec_release_def run_length_None)
  obtain hp b n' h4 where h4:
      "h4 = (fold deliver [p] (track_highest p (count_packet d p h)))\<lparr>ooo_heap := hp, out_of_order := b, expected_seq := n'\<rparr>"
      "handle_data d h = credit_update h4" "abs_reorder h4 = (expected_seq h + 1, Map.empty)"
    by (rule handle_data_in_order [OF assms(1) dd(1,2) assms(5) spec])
  have n': "n' = expected_seq h + 1" using h4(3) by (simp add: h4(1) abs_reorder_def)
  have "fst (credit_update h4) = Inl StructError"
    using assms(6-9) by (simp add: fst_credit_update h4(1) n' credit_fits_def)
  moreover have "app (snd (handle_data d h)) = handed_over h [p]"
    using handle_data_simulates(2) [OF assms(1) dd(1,2) spec] .
  ultimately show ?thesis
    using assms(2) h4(2) dd(3) [of h] by (cases "credit_update h4") auto
qed

definition late_host :: "LudpDataPacket list host" where
  "late_host = (logging_host 256 8)\<lparr>expected_seq := 2 ^ 32 - 257, abs_credit := 2 ^ 32 - 8\<rparr>"

theorem credit_overflow_ends_receiver_witness:
  "\<exists>h'. recv_loop (Datagram (fpga_data_packet (word_of_int (2 ^ 32 - 257)) 1 [9]) # [Datagram (fpga_data_packet 0 1 [9])]) late_host
     = (Some (Crashed StructError), h')
   \<and> app h' = handed_over late_host [the (data_of (fpga_data_packet (word_of_int (2 ^ 32 - 257)) 1 [9]))]"
proof (rule credit_overflow_ends_receiver)
  show "reorder_inv late_host"
    by (simp add: late_host_def reorder_inv_def) (simp add: logging_host_def start_host_def init_host_def)
  show "data_of (fpga_data_packet (word_of_int (2 ^ 32 - 257)) 1 [9]) =
      Some (the (data_of (fpga_data_packet (word_of_int (2 ^ 32 - 257)) 1 [9])))"
    by code_simp
qed (code_simp+)

text \<open>A credit the host sends takes effect at the FPGA: below \<open>2\<^sup>31\<close>, the credit limit becomes
  the larger of the old limit and the credit (a reordered older credit is ignored), and nothing
  else changes.\<close>

theorem credit_takes_effect:
  assumes "build_credit c = Inr pkt" and "c < 2 ^ 31" and "uint (credit_limit_reg f) < 2 ^ 31"
  shows "fpga_recv pkt f = f\<lparr>credit_limit_reg := word_of_int (max c (uint (credit_limit_reg f)))\<rparr>"
proof -
  have pk: "struct_pack Little header_fmt [LUDP_MAGIC, PKT_CREDIT, 0, c, 0, 0, 0] = Inr pkt"
    using assms(1) by (simp add: build_credit_def)
  have "0 \<le> c" using header_bytes(8) [OF pk] .
  then have "sint (word_of_int c - credit_limit_reg f) = c - uint (credit_limit_reg f)"
    using sint_diff_small [of c "uint (credit_limit_reg f)"] assms(2,3) by simp
  then show ?thesis
    by (simp add: fpga_recv_header [OF pk] ludp_consts max_def)
qed

theorem credit_takes_effect_witness:
  "\<exists>pkt. build_credit 256 = Inr pkt \<and>
    fpga_recv pkt fpga_reset = fpga_reset\<lparr>credit_limit_reg := word_of_int (max 256 (uint (credit_limit_reg fpga_reset)))\<rparr>"
proof -
  obtain pkt where "build_credit 256 = Inr pkt" using build_credit_ok [of 256] by auto
  with credit_takes_effect [OF this, of fpga_reset] show ?thesis by (simp add: fpga_reset_def)
qed

text \<open>C28: The host reads every data packet the FPGA can send: the two header beats parse back to the
  sequence number and size the transmitter put there, the payload is complete, and the
  retransmission flag is never set.\<close>

theorem host_parses_fpga_packet:
  "\<exists>p. parse_data (fpga_data_packet s sz pl) = Inr p \<and> seq_num p = uint s \<and> payload_len p = uint sz
     \<and> payload p = pl \<and> magic p = LUDP_MAGIC \<and> pkt_type p = PKT_DATA \<and> \<not> is_retransmit p"
  by (simp add: parse_fpga_data is_retransmit_def)

text \<open>After a reset the host is as new, whatever happened before: configuration, callback, thread
  and socket aside, its state is that of a fresh host, and the receive path's invariants hold.\<close>

theorem reset_state_fresh:
  "reset_state h = (init_host (fpga_ip h) (local_port h) (window_size h) (credit_interval h) (nack_timeout_ms h)
      (credit_poll_ms h) (cmd_timeout_ms h) (on_data h) (app h))
      \<lparr>running := running h, outbox := outbox h, sock_closed := sock_closed h\<rparr>
   \<and> reorder_inv (reset_state h)"
  by (auto simp: reset_state_def init_host_def intro: host.equality reorder_inv_empty)

end
