(* ===== verification/Ludp_Poll.thy ===== *)
theory Ludp_Poll
  imports Ludp_Loop
begin

text \<open>
  The poll thread of \<open>LudpHost\<close> (\<open>_poll_loop\<close>): it grants credit for processed packets, skips a
  gap that stalled for more than 5 ms and resends the credit as a keep-alive. Shown: an iteration
  keeps the invariants of the receive path, raises only when a credit does not fit 32 bits, skips
  exactly to the first buffered packet and never delivers out of order.

  The two threads share \<open>expected_seq\<close>, \<open>ooo_heap\<close>, \<open>out_of_order\<close> and \<open>abs_credit\<close> without
  a lock. Here an iteration is one step; \<open>Ludp_Race\<close> splits it.
\<close>

section \<open>The iteration\<close>

record poll_vars =
  last_data_time :: rat
  last_expected_seq :: int
  gap_stall_start :: "rat option"

definition poll_start :: "rat \<Rightarrow> 'a host \<Rightarrow> poll_vars" where
  "poll_start now h =
     \<lparr>last_data_time = now, last_expected_seq = expected_seq h, gap_stall_start = None\<rparr>"

text \<open>Skip the gap: \<open>False\<close> when the heap held stale entries only (the \<open>continue\<close>). The credit is
  sent and stored without the comparison the other places make.\<close>

definition gap_skip :: "'a host \<Rightarrow> (bool, 'a host) outcome" where
  "gap_skip h =
     (let h1 = h\<lparr>ooo_heap := drop_stale (expected_seq h) (ooo_heap h)\<rparr>
      in case heap_top (ooo_heap h1) of
          None \<Rightarrow> (Inr False, h1)
        | Some skip_to \<Rightarrow>
            let h2 = h1\<lparr>stats := (stats h1)\<lparr>gap_count :=
                            gap_count (stats h1) + (skip_to - expected_seq h1)\<rparr>,
                        expected_seq := skip_to\<rparr>
            in and_then (drain_ready h2) (\<lambda>_ h3.
                 let new_credit = expected_seq h3 + window_size h3
                 in and_then (send_credit new_credit h3) (\<lambda>_ h4.
                      (Inr True, h4\<lparr>abs_credit := new_credit\<rparr>))))"

definition keep_alive :: "rat \<Rightarrow> poll_vars \<Rightarrow> 'a host \<Rightarrow> (poll_vars, 'a host) outcome" where
  "keep_alive now v h =
     (if now - last_data_time v > credit_poll_ms h / 1000 * 2
      then and_then (send_credit (abs_credit h) h) (\<lambda>_ h1. (Inr (v\<lparr>last_data_time := now\<rparr>), h1))
      else (Inr v, h))"

text \<open>The stall detection: 5 ms without progress while early packets wait.\<close>

definition stall_check :: "rat \<Rightarrow> poll_vars \<Rightarrow> 'a host \<Rightarrow> (poll_vars, 'a host) outcome" where
  "stall_check now v h =
     (if expected_seq h \<noteq> last_expected_seq v
      then keep_alive now (v\<lparr>last_expected_seq := expected_seq h, gap_stall_start := None\<rparr>) h
      else if out_of_order h \<noteq> []
      then (case gap_stall_start v of
              None \<Rightarrow> keep_alive now (v\<lparr>gap_stall_start := Some now\<rparr>) h
            | Some t \<Rightarrow>
                if now - t > 5 / 1000
                then and_then (gap_skip h) (\<lambda>skipped h1.
                       if skipped
                       then keep_alive now (v\<lparr>gap_stall_start := None,
                                              last_expected_seq := expected_seq h1\<rparr>) h1
                       else (Inr (v\<lparr>gap_stall_start := None\<rparr>), h1))
                else keep_alive now v h)
      else keep_alive now v h)"

definition poll_iter :: "rat \<Rightarrow> poll_vars \<Rightarrow> 'a host \<Rightarrow> (poll_vars, 'a host) outcome" where
  "poll_iter now v h =
     (let v1 = (if packets_received (stats h) > 0 then v\<lparr>last_data_time := now\<rparr> else v)
      in and_then (advance_credit h) (\<lambda>_ h1. stall_check now v1 h1))"

text \<open>\<open>_poll_loop\<close> over the times it wakes up at, while no other thread runs.\<close>

fun poll_loop :: "rat list \<Rightarrow> poll_vars \<Rightarrow> 'a host \<Rightarrow> recv_end option \<times> poll_vars \<times> 'a host" where
  "poll_loop [] v h = (if running h then None else Some Stopped, v, h)"
| "poll_loop (now # ts) v h =
     (if \<not> running h then (Some Stopped, v, h)
      else case poll_iter now v h of
          (Inl e, h') \<Rightarrow> (Some (Crashed e), v, h')
        | (Inr v', h') \<Rightarrow> poll_loop ts v' h')"

section \<open>Progress\<close>

text \<open>
  What one step of either thread does to the host: it hands over \<open>ps\<close>, in increasing order and
  between the old and the new \<open>expected_seq\<close>, taken from the packets \<open>R\<close> and the buffer; it sends
  credits only, none of them above \<open>abs_credit\<close>; it never takes a credit back.
\<close>

definition credits_upto :: "int \<Rightarrow> bytes list \<Rightarrow> bool" where
  "credits_upto c pkts \<longleftrightarrow> (\<forall>pkt \<in> set pkts. \<exists>k. build_credit k = Inr pkt \<and> k \<le> c)"

definition credit_inv :: "'a host \<Rightarrow> bool" where
  "credit_inv h \<longleftrightarrow> abs_credit h \<le> expected_seq h + window_size h"

definition progress :: "LudpDataPacket set \<Rightarrow> LudpDataPacket list \<Rightarrow> 'a host \<Rightarrow> 'a host \<Rightarrow> bool" where
  "progress R ps h h' \<longleftrightarrow>
     config_same h h' \<and> app h' = handed_over h ps \<and>
     sorted_wrt (<) (map seq_num ps) \<and>
     (\<forall>p \<in> set ps. expected_seq h \<le> seq_num p \<and> seq_num p < expected_seq h') \<and>
     expected_seq h \<le> expected_seq h' \<and>
     set ps \<subseteq> R \<union> ran (map_of (out_of_order h)) \<and>
     ran (map_of (out_of_order h')) \<subseteq> R \<union> ran (map_of (out_of_order h)) \<and>
     abs_credit h \<le> abs_credit h' \<and> credit_inv h' \<and> reorder_inv h' \<and>
     (\<exists>pkts. outbox h' = outbox h @ pkts \<and> credits_upto (abs_credit h') pkts)"

lemma credits_upto_append [simp]:
  "credits_upto c (xs @ ys) \<longleftrightarrow> credits_upto c xs \<and> credits_upto c ys"
  by (auto simp: credits_upto_def)

lemma credits_upto_Nil [simp]: "credits_upto c []"
  by (simp add: credits_upto_def)

lemma credits_upto_mono: "credits_upto c xs \<Longrightarrow> c \<le> c' \<Longrightarrow> credits_upto c' xs"
  by (fastforce simp: credits_upto_def)

lemma progress_refl: "reorder_inv h \<Longrightarrow> credit_inv h \<Longrightarrow> progress R [] h h"
  by (simp add: progress_def)

lemma progress_trans:
  assumes a: "progress R ps h h1" and b: "progress R qs h1 h2"
  shows "progress R (ps @ qs) h h2"
proof -
  note 1 = a [unfolded progress_def] and 2 = b [unfolded progress_def]
  have "handed_over h1 qs = handed_over h (ps @ qs)"
    using 1 by (intro handed_over_append) (auto simp: config_same_def)
  moreover have "config_same h h2"
    using 1 2 by (auto intro: config_same_trans)
  moreover have "sorted_wrt (<) (map seq_num (ps @ qs))"
    using 1 2 by (fastforce simp: sorted_wrt_append)
  moreover have "\<exists>pkts. outbox h2 = outbox h @ pkts \<and> credits_upto (abs_credit h2) pkts"
    using 1 2 by (auto intro: credits_upto_mono)
  ultimately show ?thesis
    using 1 2 unfolding progress_def by force
qed

text \<open>The credit operations.\<close>

lemma send_credit_progress:
  assumes "reorder_inv h" "credit_inv h" "c \<le> abs_credit h"
  shows "progress R [] h (snd (send_credit c h))"
  using credit_frameD [OF send_credit_frame [of h c]] assms reorder_inv_cong [of "snd (send_credit c h)" h]
  by (cases rule: send_credit_cases [of c h])
    (auto simp: progress_def config_same_def credit_inv_def credits_upto_def)

lemma grant_progress:
  fixes h :: "'a host"
  defines "c \<equiv> expected_seq h + window_size h"
  assumes "reorder_inv h" "credit_inv h"
  shows "progress R [] h (snd (and_then (send_credit c h) (\<lambda>_ h1. (Inr x, h1\<lparr>abs_credit := c\<rparr>))))"
  using assms reorder_inv_cong [of "h\<lparr>abs_credit := c\<rparr>" h]
  by (cases rule: send_credit_cases [of c h])
    (auto simp: progress_def config_same_def credit_inv_def credits_upto_def reorder_inv_def
      handed_over_def split: option.split)

lemma advance_credit_progress:
  "reorder_inv h \<Longrightarrow> credit_inv h \<Longrightarrow> progress R [] h (snd (advance_credit h))"
  by (simp add: advance_credit_def Let_def grant_progress progress_refl)

lemma credit_update_progress:
  "reorder_inv h \<Longrightarrow> credit_inv h \<Longrightarrow> progress R [] h (snd (credit_update h))"
  by (simp add: credit_update_def advance_credit_progress progress_refl)

section \<open>The threads make progress\<close>

lemma delivered_progress:
  assumes h4: "h4 = (fold deliver ps h)\<lparr>ooo_heap := hp, out_of_order := d, expected_seq := n'\<rparr>"
    and "reorder_inv h4" and "credit_inv h" and "expected_seq h \<le> n'"
    and "sorted_wrt (<) (map seq_num ps)"
    and "\<forall>p \<in> set ps. expected_seq h \<le> seq_num p \<and> seq_num p < n'"
    and "set ps \<subseteq> R \<union> ran (map_of (out_of_order h))"
    and "ran (map_of d) \<subseteq> R \<union> ran (map_of (out_of_order h))"
  shows "progress R ps h h4"
  using assms(2-8) by (simp add: h4 progress_def config_same_def credit_inv_def app_fold_deliver)

lemma count_track_progress:
  fixes h :: "'a host"
  defines "h1 \<equiv> \<lambda>data p h :: 'a host. track_highest p (count_packet data p h)"
  assumes "reorder_inv h" and "credit_inv h"
  shows "progress R [] h (h1 data p h)"
  using assms reorder_inv_cong [of "h1 data p h" h]
  by (simp add: h1_def progress_def config_same_def credit_inv_def)

lemma handle_data_progress:
  assumes inv: "reorder_inv h" and cred: "credit_inv h"
    and len: "LUDP_HDR_LEN \<le> length data" and p: "parse_data data = Inr p"
  shows "\<exists>ps. progress {p} ps h (snd (handle_data data h))"
proof -
  let ?h = "track_highest p (count_packet data p h)"
  note c0 = count_track_progress [OF inv cred, where R = "{p}" and data = data and p = p]
  have inv1: "reorder_inv ?h" and cred1: "credit_inv ?h"
    using c0 by (auto simp: progress_def)
  note seq = parse_data_seq_range [OF p len]
  consider (now) "seq_num p = expected_seq h" | (future) "expected_seq h < seq_num p"
    | (old) "seq_num p < expected_seq h" by linarith
  then show ?thesis
  proof cases
    case now
    obtain ps n' buf' where spec: "spec_recv p (abs_reorder h) = (ps, (n', buf'))"
      by (metis prod.exhaust)
    then obtain qs where rel: "spec_release (expected_seq h + 1) (map_of (out_of_order h)) = (qs, (n', buf'))"
        and ps: "ps = p # qs"
      using now by (auto simp: spec_recv_def abs_reorder_def split: prod.splits)
    note out = spec_release_out [OF reorder_invD(4) [OF inv] rel]
    obtain hp d m h4 where h4:
        "h4 = (fold deliver ps ?h)\<lparr>ooo_heap := hp, out_of_order := d, expected_seq := m\<rparr>"
        "handle_data data h = credit_update h4" "abs_reorder h4 = (n', buf')" "reorder_inv h4"
      by (rule handle_data_in_order [OF inv len p now spec])
    have m: "m = n'" "map_of d = buf'"
      using h4(3) by (auto simp: h4(1) abs_reorder_def)
    have "progress {p} ps ?h h4"
      by (rule delivered_progress [OF h4(1,4) cred1]) (use out now in \<open>auto simp: ps m\<close>)
    from progress_trans [OF c0 this] credit_update_progress [OF h4(4), of "{p}"] this
    have "progress {p} (([] @ ps) @ []) h (snd (credit_update h4))"
      by (intro progress_trans [of "{p}" "[] @ ps"]) (auto simp: progress_def)
    then show ?thesis by (auto simp: h4(2))
  next
    case future
    have "progress {p} [] ?h (store_future p ?h)"
      using store_future_refines [OF inv1 _ seq(2)] future cred1
      by (auto simp: progress_def config_same_def credit_inv_def abs_reorder_def ran_def)
    from progress_trans [OF c0 this] show ?thesis
      by (auto simp: handle_data_cases(2) [OF len p future])
  next
    case old
    with c0 show ?thesis
      by (auto simp: handle_data_cases(3) [OF len p])
  qed
qed

lemma recv_datagram_progress:
  assumes "reorder_inv h" and "credit_inv h"
  shows "\<exists>ps. progress (set_option (data_of d)) ps h (snd (recv_datagram d h))"
proof (cases "data_of d")
  case None
  then obtain pc where "snd (recv_datagram d h) = h\<lparr>pending_cmds := pc\<rparr>"
    using data_of_None [of d h] by force
  moreover have "progress {} [] h (h\<lparr>pending_cmds := pc\<rparr>)"
    using assms reorder_inv_cong [of "h\<lparr>pending_cmds := pc\<rparr>" h]
    by (simp add: progress_def config_same_def credit_inv_def)
  ultimately show ?thesis using None by auto
next
  case (Some p)
  with handle_data_progress [OF assms data_of_Some(1,2) [OF Some]] data_of_Some(3) [OF Some, of h]
  show ?thesis by auto
qed

section \<open>Gap skip\<close>

text \<open>With early packets waiting, the skip goes to the lowest of them, which it delivers together
  with its run, and grants the credit from there.\<close>

lemma gap_skip_eq:
  assumes inv: "reorder_inv h" and ne: "out_of_order h \<noteq> []"
  obtains k ps n' hp d h3 where "k = Min (dom (map_of (out_of_order h)))"
    and "k \<in> dom (map_of (out_of_order h))" and "expected_seq h < k"
    and "spec_release k (map_of (out_of_order h)) = (ps, (n', map_of d))" and "k < n'"
    and "h3 = (fold deliver ps (h\<lparr>stats := (stats h)\<lparr>gap_count := gap_count (stats h) + (k - expected_seq h)\<rparr>\<rparr>))
           \<lparr>ooo_heap := hp, out_of_order := d, expected_seq := n'\<rparr>"
    and "reorder_inv h3"
    and "gap_skip h = and_then (send_credit (n' + window_size h) h3)
           (\<lambda>_ h4. (Inr True, h4\<lparr>abs_credit := n' + window_size h\<rparr>))"
proof -
  let ?buf = "map_of (out_of_order h)"
  note i = reorder_invD [OF inv]
  obtain k where k: "heap_top (ooo_heap h) = Some k"
    using ooo.tracks_top_None [OF i(1)] ne by (cases "heap_top (ooo_heap h)") auto
  note top = ooo.tracks_top [OF i(1) k]
  have Min: "k = Min (dom ?buf)"
    using top by (intro Min_eqI [symmetric]) (auto simp: finite_dom_map_of)
  have gt: "expected_seq h < k" and lt: "k < 2 ^ 32"
    using i(2,3) [OF top(1)] by auto
  have stale: "drop_stale (expected_seq h) (ooo_heap h) = ooo_heap h"
    using k gt by (intro drop_stale_noop) auto
  define h2 where "h2 = h\<lparr>stats := (stats h)\<lparr>gap_count := gap_count (stats h) + (k - expected_seq h)\<rparr>,
      expected_seq := k\<rparr>"
  have gs: "gap_skip h = and_then (drain_ready h2) (\<lambda>_ h3.
      let new_credit = expected_seq h3 + window_size h3
      in and_then (send_credit new_credit h3) (\<lambda>_ h4. (Inr True, h4\<lparr>abs_credit := new_credit\<rparr>)))"
    using k by (simp add: gap_skip_def stale h2_def heap_update_same)
  have t: "ooo.tracks (ooo_heap h2) (out_of_order h2)"
    using i(1) by (simp add: h2_def)
  have keys: "seq_num q = x \<and> expected_seq h2 \<le> x \<and> x < 2 ^ 32"
    if "map_of (out_of_order h2) x = Some q" for x q
    using that i(3,4) [of x] top(2) [of x] by (auto simp: h2_def dom_def)
  have r: "0 \<le> expected_seq h2" "expected_seq h2 \<le> 2 ^ 32"
    using i(5) gt lt by (simp_all add: h2_def)
  obtain ps a' where rel: "spec_release (expected_seq h2) (map_of (out_of_order h2)) = (ps, a')"
    by (rule prod.exhaust)
  obtain hp d n' where d: "drain_ready h2 = (Inr (), (fold deliver ps h2)
       \<lparr>ooo_heap := hp, out_of_order := d, expected_seq := n'\<rparr>)"
      "a' = (n', map_of d)" "expected_seq h2 \<le> n'"
      "reorder_inv ((fold deliver ps h2)\<lparr>ooo_heap := hp, out_of_order := d, expected_seq := n'\<rparr>)"
    by (rule drain_ready_refines [OF t keys r rel])
  have fin: "finite (dom ?buf)" by (simp add: finite_dom_map_of)
  have "run_length ?buf k \<noteq> 0"
    using top(1) run_length_Some [OF fin, of k] by auto
  then have "k < n'"
    using rel d(2) by (auto simp: spec_release_def Let_def h2_def)
  moreover have "(fold deliver ps h2)\<lparr>ooo_heap := hp, out_of_order := d, expected_seq := n'\<rparr> =
      (fold deliver ps (h\<lparr>stats := (stats h)\<lparr>gap_count := gap_count (stats h) + (k - expected_seq h)\<rparr>\<rparr>))
           \<lparr>ooo_heap := hp, out_of_order := d, expected_seq := n'\<rparr>"
    by (simp add: h2_def fold_deliver_update)
  ultimately show thesis
    using d rel by (intro that [OF Min top(1) gt _ _ refl]) (simp_all add: gs h2_def Let_def)
qed

lemma gap_skip_progress:
  assumes inv: "reorder_inv h" and ne: "out_of_order h \<noteq> []" and cred: "credit_inv h"
  shows "\<exists>ps. progress {} ps h (snd (gap_skip h))"
proof -
  obtain k ps n' hp d h3 where g:
      "k \<in> dom (map_of (out_of_order h))" "expected_seq h < k"
      "spec_release k (map_of (out_of_order h)) = (ps, (n', map_of d))" "k < n'"
      "h3 = (fold deliver ps (h\<lparr>stats := (stats h)\<lparr>gap_count := gap_count (stats h) + (k - expected_seq h)\<rparr>\<rparr>))
           \<lparr>ooo_heap := hp, out_of_order := d, expected_seq := n'\<rparr>"
      "reorder_inv h3"
      "gap_skip h = and_then (send_credit (n' + window_size h) h3)
           (\<lambda>_ h4. (Inr True, h4\<lparr>abs_credit := n' + window_size h\<rparr>))"
    by (rule gap_skip_eq [OF inv ne])
  let ?h1 = "h\<lparr>stats := (stats h)\<lparr>gap_count := gap_count (stats h) + (k - expected_seq h)\<rparr>\<rparr>"
  note out = spec_release_out [OF reorder_invD(4) [OF inv] g(3)]
  have "progress {} [] h ?h1"
    using inv cred reorder_inv_cong [of ?h1 h] by (simp add: progress_def config_same_def credit_inv_def)
  moreover have "progress {} ps ?h1 h3"
    by (rule delivered_progress [OF g(5,6)]) (use out g(2,4) cred in \<open>auto simp: credit_inv_def\<close>)
  moreover have "progress {} [] h3 (snd (gap_skip h))"
    using grant_progress [OF g(6), of "{}" True] calculation(2) unfolding g(7)
    by (simp add: g(5) progress_def)
  ultimately have "progress {} ([] @ ps @ []) h (snd (gap_skip h))"
    by (blast intro: progress_trans)
  then show ?thesis by blast
qed

section \<open>Whole iterations\<close>

lemma keep_alive_progress:
  assumes "reorder_inv h" and "credit_inv h"
  shows "progress {} [] h (snd (keep_alive now v h))"
proof -
  have "progress {} [] h (snd (and_then (send_credit (abs_credit h) h) (\<lambda>_ h1. (Inr x, h1))))" for x :: poll_vars
    using send_credit_progress [OF assms, of "abs_credit h" "{}"] by (auto intro: and_then_rel)
  then show ?thesis
    by (simp add: keep_alive_def progress_refl assms)
qed

lemma progress_and_then:
  assumes "\<exists>ps. progress R ps h (snd r)"
    and "\<And>x. reorder_inv (snd r) \<Longrightarrow> credit_inv (snd r) \<Longrightarrow> fst r = Inr x \<Longrightarrow> \<exists>ps. progress R ps (snd r) (snd (k x (snd r)))"
  shows "\<exists>ps. progress R ps h (snd (and_then r k))"
proof (cases "fst r")
  case (Inl e)
  then show ?thesis using assms(1) by (simp add: and_then_def)
next
  case (Inr x)
  with assms obtain ps qs where "progress R ps h (snd r)" "progress R qs (snd r) (snd (k x (snd r)))"
    by (auto simp: progress_def)
  from progress_trans [OF this] show ?thesis
    using Inr by (auto simp: and_then_def)
qed

lemma stall_check_progress:
  assumes "reorder_inv h" and "credit_inv h"
  shows "\<exists>ps. progress {} ps h (snd (stall_check now v h))"
proof -
  have k: "\<exists>ps. progress {} ps g (snd (keep_alive now w g))" if "reorder_inv g" "credit_inv g" for w and g :: "'a host"
    using keep_alive_progress [OF that] by blast
  have "\<exists>ps. progress {} ps h (snd (and_then (gap_skip h) (\<lambda>skipped h1.
      if skipped then keep_alive now (w h1) h1 else (Inr x, h1))))"
    if "out_of_order h \<noteq> []" for w x
    by (rule progress_and_then [OF gap_skip_progress [OF assms(1) that assms(2)]])
      (auto intro: k progress_refl)
  then show ?thesis
    using k [OF assms] by (simp add: stall_check_def split: option.split)
qed

lemma poll_iter_progress:
  assumes "reorder_inv h" and "credit_inv h"
  shows "\<exists>ps. progress {} ps h (snd (poll_iter now v h))"
  unfolding poll_iter_def Let_def
  using advance_credit_progress [OF assms] by (intro progress_and_then stall_check_progress) auto

section \<open>Exceptions\<close>

text \<open>The step raises \<open>struct.error\<close> only, and only when the window has left the 32-bit range.\<close>

definition credit_error_only :: "('b, 'a host) outcome \<Rightarrow> bool" where
  "credit_error_only r \<longleftrightarrow> (\<forall>e. fst r = Inl e \<longrightarrow>
     e = StructError \<and> 2 ^ 32 \<le> expected_seq (snd r) + window_size (snd r))"

lemma credit_error_only_and_then:
  assumes "credit_error_only r"
    and "\<And>x. fst r = Inr x \<Longrightarrow> credit_error_only (k x (snd r))"
  shows "credit_error_only (and_then r k)"
  using assms by (cases "fst r") (auto simp: and_then_def credit_error_only_def)

lemma credit_error_only_Inr [simp]: "credit_error_only (Inr x, h)"
  by (simp add: credit_error_only_def)

lemma send_credit_error_only:
  "0 \<le> c \<Longrightarrow> c \<le> expected_seq h + window_size h \<Longrightarrow> credit_error_only (send_credit c h)"
  by (cases rule: send_credit_cases [of c h]) (auto simp: credit_error_only_def)

lemma advance_credit_error_only:
  "0 \<le> abs_credit h \<Longrightarrow> credit_error_only (advance_credit h)"
  by (auto simp: advance_credit_def Let_def intro!: credit_error_only_and_then send_credit_error_only)

lemma keep_alive_error_only:
  "0 \<le> abs_credit h \<Longrightarrow> credit_inv h \<Longrightarrow> credit_error_only (keep_alive now v h)"
  by (auto simp: keep_alive_def credit_inv_def intro!: credit_error_only_and_then send_credit_error_only)

lemma gap_skip_error_only:
  assumes inv: "reorder_inv h" and ne: "out_of_order h \<noteq> []" and cred: "credit_inv h" "0 \<le> abs_credit h"
  shows "credit_error_only (gap_skip h)"
proof -
  obtain k ps n' hp d h3 where g: "expected_seq h < k" "k < n'"
      "h3 = (fold deliver ps (h\<lparr>stats := (stats h)\<lparr>gap_count := gap_count (stats h) + (k - expected_seq h)\<rparr>\<rparr>))
           \<lparr>ooo_heap := hp, out_of_order := d, expected_seq := n'\<rparr>"
      "gap_skip h = and_then (send_credit (n' + window_size h) h3)
           (\<lambda>_ h4. (Inr True, h4\<lparr>abs_credit := n' + window_size h\<rparr>))"
    by (rule gap_skip_eq [OF inv ne])
  have "0 \<le> n' + window_size h"
    using g(1,2) cred by (simp add: credit_inv_def)
  with g show ?thesis
    by (auto intro!: credit_error_only_and_then send_credit_error_only)
qed

lemma progress_credit:
  "progress R ps h h' \<Longrightarrow> 0 \<le> abs_credit h \<Longrightarrow> 0 \<le> abs_credit h' \<and> credit_inv h' \<and> reorder_inv h'"
  by (auto simp: progress_def)

lemma stall_check_error_only:
  assumes "reorder_inv h" "credit_inv h" "0 \<le> abs_credit h"
  shows "credit_error_only (stall_check now v h)"
proof -
  have "credit_error_only (and_then (gap_skip h) (\<lambda>skipped h1.
      if skipped then keep_alive now (w h1) h1 else (Inr x, h1)))" if ne: "out_of_order h \<noteq> []" for w x
  proof (rule credit_error_only_and_then [OF gap_skip_error_only [OF assms(1) ne assms(2,3)]])
    fix b
    obtain ps where "progress {} ps h (snd (gap_skip h))"
      using gap_skip_progress [OF assms(1) ne assms(2)] ..
    with assms(3) have "0 \<le> abs_credit (snd (gap_skip h))" "credit_inv (snd (gap_skip h))"
      by (auto dest: progress_credit)
    then show "credit_error_only (if b then keep_alive now (w (snd (gap_skip h))) (snd (gap_skip h))
        else (Inr x, snd (gap_skip h)))"
      by (auto intro: keep_alive_error_only)
  qed
  then show ?thesis
    using assms by (simp add: stall_check_def keep_alive_error_only split: option.split)
qed

lemma poll_iter_error_only:
  assumes "reorder_inv h" "credit_inv h" "0 \<le> abs_credit h"
  shows "credit_error_only (poll_iter now v h)"
  unfolding poll_iter_def Let_def
  using progress_credit [OF advance_credit_progress [OF assms(1,2), of "{}"] assms(3)] assms(3)
  by (intro credit_error_only_and_then advance_credit_error_only stall_check_error_only) auto

section \<open>Stalls end\<close>

lemma handed_over_cong:
  "on_data h1 = on_data h \<Longrightarrow> app h1 = app h \<Longrightarrow> ps = qs \<Longrightarrow> handed_over h1 ps = handed_over h qs"
  by (simp add: handed_over_def split: option.split)

lemma keep_alive_ok:
  assumes "credit_fits (abs_credit h)"
  obtains v' h' where "keep_alive now v h = (Inr v', h')" "credit_frame h h'"
    "abs_credit h' = abs_credit h" "last_expected_seq v' = last_expected_seq v"
    "gap_stall_start v' = gap_stall_start v"
proof (cases rule: send_credit_cases [of "abs_credit h" h])
  case bad
  with assms show ?thesis by (simp add: credit_fits_def)
next
  case (good pkt)
  show ?thesis
  proof (cases "now - last_data_time v > credit_poll_ms h / 1000 * 2")
    case True
    with good send_credit_frame [of h "abs_credit h"] show ?thesis
      by (intro that [of "v\<lparr>last_data_time := now\<rparr>" "snd (send_credit (abs_credit h) h)"])
        (simp_all add: keep_alive_def)
  qed (auto simp: keep_alive_def intro: that [of v h])
qed

lemma advance_credit_ok:
  assumes "credit_fits (expected_seq h + window_size h)" and "credit_inv h"
  obtains h' where "advance_credit h = (Inr (), h')" "credit_frame h h'"
    "abs_credit h' = expected_seq h + window_size h"
proof (cases rule: send_credit_cases [of "expected_seq h + window_size h" h])
  case bad
  with assms show ?thesis by (simp add: credit_fits_def)
next
  case (good pkt)
  then have "fst (advance_credit h) = Inr ()"
      "abs_credit (snd (advance_credit h)) = expected_seq h + window_size h"
    using assms(2) by (auto simp: advance_credit_def credit_inv_def Let_def)
  with advance_credit_frame [of h] show ?thesis
    by (intro that [of "snd (advance_credit h)"]) (simp_all add: prod_eq_iff)
qed

text \<open>The first iteration of a stall records its time.\<close>

lemma poll_iter_arms:
  assumes "credit_inv h" and "credit_fits (expected_seq h + window_size h)"
    and "out_of_order h \<noteq> []" and "last_expected_seq v = expected_seq h" and "gap_stall_start v = None"
  obtains v' h' where "poll_iter t v h = (Inr v', h')" "credit_frame h h'"
    "last_expected_seq v' = expected_seq h" "gap_stall_start v' = Some t"
    "abs_credit h' = expected_seq h + window_size h"
proof -
  let ?v = "(if packets_received (stats h) > 0 then v\<lparr>last_data_time := t\<rparr> else v)\<lparr>gap_stall_start := Some t\<rparr>"
  obtain h1 where h1: "advance_credit h = (Inr (), h1)" "credit_frame h h1"
      "abs_credit h1 = expected_seq h + window_size h"
    by (rule advance_credit_ok [OF assms(2,1)])
  have fits: "credit_fits (abs_credit h1)" using h1(3) assms(2) by simp
  obtain v' h' where k: "keep_alive t ?v h1 = (Inr v', h')" "credit_frame h1 h'"
      "abs_credit h' = abs_credit h1" "last_expected_seq v' = last_expected_seq ?v"
      "gap_stall_start v' = gap_stall_start ?v"
    by (rule keep_alive_ok [OF fits])
  have "poll_iter t v h = keep_alive t ?v h1"
    using h1(1) assms(3-5) credit_frameD [OF h1(2)] by (auto simp: poll_iter_def stall_check_def)
  with k h1 assms(4) show thesis
    by (intro that [of v' h']) (auto intro: credit_frame_trans)
qed

lemma gap_skip_ok:
  assumes inv: "reorder_inv h" and ne: "out_of_order h \<noteq> []" and cred: "credit_inv h"
    and abs: "0 \<le> abs_credit h" and bound: "spec_bound B (abs_reorder h)" and fits: "credit_fits (B + window_size h)"
  obtains h' where "gap_skip h = (Inr True, h')"
    and "app h' = handed_over h (run (map_of (out_of_order h)) (Min (dom (map_of (out_of_order h)))))"
    and "Min (dom (map_of (out_of_order h))) < expected_seq h'"
    and "abs_credit h' = expected_seq h' + window_size h" and "credit_fits (abs_credit h')"
    and "running h' = running h"
proof -
  let ?buf = "map_of (out_of_order h)"
  obtain k ps n' hp d h3 where g: "k = Min (dom ?buf)" "k \<in> dom ?buf" "expected_seq h < k"
      "spec_release k ?buf = (ps, (n', map_of d))" "k < n'"
      "h3 = (fold deliver ps (h\<lparr>stats := (stats h)\<lparr>gap_count := gap_count (stats h) + (k - expected_seq h)\<rparr>\<rparr>))
           \<lparr>ooo_heap := hp, out_of_order := d, expected_seq := n'\<rparr>"
      "reorder_inv h3"
      "gap_skip h = and_then (send_credit (n' + window_size h) h3)
           (\<lambda>_ h4. (Inr True, h4\<lparr>abs_credit := n' + window_size h\<rparr>))"
    by (rule gap_skip_eq [OF inv ne])
  have ps: "ps = run ?buf k" and n': "n' = k + int (run_length ?buf k)"
    using g(4) by (auto simp: spec_release_def Let_def)
  obtain m where m: "run_length ?buf k = Suc m"
    using g(5) n' by (cases "run_length ?buf k") auto
  then have "k + int m \<in> dom ?buf"
    using run_length_inside [of m ?buf k] by auto
  then have "k + int m < B"
    using bound unfolding spec_bound_def abs_reorder_def by auto
  then have "n' \<le> B" by (simp add: n' m)
  then have f: "credit_fits (n' + window_size h)"
    using fits g(3,5) cred abs by (simp add: credit_fits_def credit_inv_def)
  define h' where "h' = (snd (send_credit (n' + window_size h) h3))\<lparr>abs_credit := n' + window_size h\<rparr>"
  have "gap_skip h = (Inr True, h')"
    using fst_send_credit [of "n' + window_size h" h3] f by (simp add: g(8) and_then_def h'_def)
  moreover have "app h' = app h3" "expected_seq h' = n'" "running h' = running h"
    using credit_frameD [OF send_credit_frame [of h3 "n' + window_size h"]] by (simp_all add: h'_def g(6))
  moreover have "app h3 = handed_over h ps"
    by (auto simp: g(6) app_fold_deliver intro: handed_over_cong)
  ultimately show thesis
    using g(1,5) f by (intro that [of h']) (auto simp: ps h'_def)
qed

text \<open>C5: A stall ends. If the next packet is missing while later ones are buffered, two wake-ups of the
  poll thread more than 5 ms apart, with nothing received in between, skip the gap: the thread
  does not crash, the lowest buffered packet and its run are handed over in order, nothing else is,
  and the window moves with them.\<close>

theorem stalled_gap_is_skipped:
  fixes h :: "'a host" and v :: poll_vars
  defines "buf \<equiv> map_of (out_of_order h)"
  assumes "reorder_inv h" and "credit_inv h" and "0 \<le> abs_credit h" and "running h"
    and "out_of_order h \<noteq> []" and "last_expected_seq v = expected_seq h" and "gap_stall_start v = None"
    and "t2 - t1 > 5 / 1000"
    and "spec_bound B (abs_reorder h)" and "credit_fits (B + window_size h)"
  shows "\<exists>v' h'. poll_loop [t1, t2] v h = (None, v', h')
     \<and> app h' = handed_over h (run buf (Min (dom buf)))
     \<and> Min (dom buf) < expected_seq h'
     \<and> abs_credit h' = expected_seq h' + window_size h"
proof -
  have "expected_seq h \<le> B" using assms(10) by (simp add: spec_bound_def abs_reorder_def)
  then have fits: "credit_fits (expected_seq h + window_size h)"
    using assms(3,4,11) by (simp add: credit_fits_def credit_inv_def)
  obtain v1 h1 where 1: "poll_iter t1 v h = (Inr v1, h1)" "credit_frame h h1"
      "last_expected_seq v1 = expected_seq h" "gap_stall_start v1 = Some t1"
      "abs_credit h1 = expected_seq h + window_size h"
    by (rule poll_iter_arms [OF assms(3) fits assms(6-8)])
  note f1 = credit_frameD [OF 1(2)]
  have adv: "advance_credit h1 = (Inr (), h1)"
    using 1(5) f1 by (simp add: advance_credit_def)
  have i1: "reorder_inv h1" "out_of_order h1 \<noteq> []" "credit_inv h1" "0 \<le> abs_credit h1"
      "spec_bound B (abs_reorder h1)" "credit_fits (B + window_size h1)"
    using assms fits reorder_inv_cong [of h1 h] f1 1(5)
    by (simp_all add: credit_inv_def credit_fits_def abs_reorder_def)
  obtain h2 where 2: "gap_skip h1 = (Inr True, h2)"
      "app h2 = handed_over h1 (run (map_of (out_of_order h1)) (Min (dom (map_of (out_of_order h1)))))"
      "Min (dom (map_of (out_of_order h1))) < expected_seq h2"
      "abs_credit h2 = expected_seq h2 + window_size h1" "credit_fits (abs_credit h2)"
      "running h2 = running h1"
    by (rule gap_skip_ok [OF i1])
  define v2 where "v2 = (if packets_received (stats h1) > 0 then v1\<lparr>last_data_time := t2\<rparr> else v1)
      \<lparr>gap_stall_start := None, last_expected_seq := expected_seq h2\<rparr>"
  obtain v' h' where k: "keep_alive t2 v2 h2 = (Inr v', h')" "credit_frame h2 h'" "abs_credit h' = abs_credit h2"
    by (rule keep_alive_ok [OF 2(5)])
  have "poll_iter t2 v1 h1 = (Inr v', h')"
    using k(1) 1(3,4) f1(1) i1(2) assms(9) 2(1)
    by (cases "packets_received (stats h1) > 0") (simp_all add: poll_iter_def adv stall_check_def v2_def Let_def)
  moreover have "handed_over h1 qs = handed_over h qs" for qs
    using f1 by (intro handed_over_cong) simp_all
  ultimately show ?thesis
    using 1(1) 2 assms(5) f1 k(3) credit_frameD [OF k(2)]
    by (auto simp: buf_def)
qed

text \<open>C26: The keep-alive is silent once data has arrived. With a packet counted, the window granted and
  no early packet waiting, the poll thread sends nothing however long it runs: a credit lost on
  the way to the FPGA is not repeated.\<close>

theorem keep_alive_silent_after_data:
  assumes "packets_received (stats h) > 0" and "running h" and "0 \<le> credit_poll_ms h"
    and "abs_credit h = expected_seq h + window_size h" and "out_of_order h = []"
  shows "\<exists>v'. poll_loop ts v h = (None, v', h)"
proof (induction ts arbitrary: v)
  case Nil
  then show ?case using assms(2) by simp
next
  case (Cons t ts)
  have k: "keep_alive t w h = (Inr w, h)" if "last_data_time w = t" for w
    using that assms(3) by (simp add: keep_alive_def not_less)
  have "advance_credit h = (Inr (), h)"
    using assms(4) by (simp add: advance_credit_def)
  then obtain v1 where "poll_iter t v h = (Inr v1, h)"
    using assms(1,5) k by (cases "expected_seq h = last_expected_seq v") (auto simp: poll_iter_def stall_check_def Let_def)
  with Cons.IH [of v1] assms(2) show ?case by simp
qed

text \<open>Before the first packet the keep-alive works: a wake-up more than two poll periods after the
  last one that sent repeats the granted credit.\<close>

theorem keep_alive_before_data:
  assumes "packets_received (stats h) = 0" and "now - last_data_time v > credit_poll_ms h / 1000 * 2"
    and "abs_credit h = expected_seq h + window_size h" and "out_of_order h = []"
    and "credit_fits (abs_credit h)"
  shows "\<exists>v' h' pkt. poll_iter now v h = (Inr v', h') \<and> build_credit (abs_credit h) = Inr pkt
     \<and> outbox h' = outbox h @ [pkt] \<and> last_data_time v' = now"
proof (cases rule: send_credit_cases [of "abs_credit h" h])
  case bad
  with assms(5) show ?thesis by (simp add: credit_fits_def)
next
  case (good pkt)
  have "advance_credit h = (Inr (), h)"
    using assms(3) by (simp add: advance_credit_def)
  then obtain w where "poll_iter now v h = keep_alive now w h" "last_data_time w = last_data_time v"
    using assms(1,4) by (cases "expected_seq h = last_expected_seq v") (auto simp: poll_iter_def stall_check_def Let_def)
  with good assms(2) show ?thesis
    by (simp add: keep_alive_def)
qed

text \<open>C6: Whatever it finds, an iteration of the poll thread keeps the invariants of the reorder buffer
  and of the credit, hands over only buffered packets, in increasing order from \<open>expected_seq\<close> on,
  and sends credit packets only, none of them beyond the granted window. It raises nothing but
  \<open>struct.error\<close>, and that only when the window has left the 32-bit range; the invariants then
  still hold.\<close>

theorem poll_iter_safe:
  assumes "reorder_inv h" and "credit_inv h" and "0 \<le> abs_credit h"
  shows "(\<exists>ps. progress {} ps h (snd (poll_iter now v h))) \<and> credit_error_only (poll_iter now v h)"
  using poll_iter_progress [OF assms(1,2)] poll_iter_error_only [OF assms] by blast

section \<open>A stalled host\<close>

definition stalled_host :: "LudpDataPacket list host" where
  \<comment> \<open>packets 0, 2, 3 and 5 have arrived\<close>
  "stalled_host = snd (recv_loop (map (\<lambda>s. Datagram (fpga_data_packet s 1 [9])) [0, 3, 2, 5]) (logging_host 256 8))"

definition stalled_vars :: poll_vars where
  "stalled_vars = \<lparr>last_data_time = 0, last_expected_seq = 1, gap_stall_start = None\<rparr>"

lemma logging_credit: "credit_inv (logging_host w i)" "abs_credit (logging_host w i) = w"
  by (simp_all add: credit_inv_def logging_host_def start_host_def init_host_def)

lemma recv_loop_progress:
  assumes "reorder_inv h" and "credit_inv h" and "0 \<le> abs_credit h"
  shows "reorder_inv (snd (recv_loop rs h)) \<and> credit_inv (snd (recv_loop rs h)) \<and> 0 \<le> abs_credit (snd (recv_loop rs h))"
  using assms
proof (induction rs arbitrary: h)
  case (Cons r rs)
  show ?case
  proof (cases r)
    case (Datagram d)
    obtain ps where "progress (set_option (data_of d)) ps h (snd (recv_datagram d h))"
      using recv_datagram_progress [OF Cons.prems(1,2)] by blast
    with Cons.prems(3) have "0 \<le> abs_credit (snd (recv_datagram d h))"
        "credit_inv (snd (recv_datagram d h))" "reorder_inv (snd (recv_datagram d h))"
      by (auto dest: progress_credit)
    note IH = Cons.IH [OF this(3,2,1)]
    have "snd (recv_loop (r # rs) h) \<in> {h, snd (recv_datagram d h), snd (recv_loop rs (snd (recv_datagram d h)))}"
      using Datagram by (simp split: prod.split sum.split)
    with IH Cons.prems \<open>0 \<le> abs_credit (snd (recv_datagram d h))\<close> \<open>credit_inv (snd (recv_datagram d h))\<close>
      \<open>reorder_inv (snd (recv_datagram d h))\<close>
    show ?thesis by (elim insertE emptyE) simp_all
  next
    case OSError
    with Cons.prems show ?thesis by simp
  qed
qed simp

lemma stalled_host_inv: "reorder_inv stalled_host" "credit_inv stalled_host" "0 \<le> abs_credit stalled_host"
  using recv_loop_progress [of "logging_host 256 8"] unfolding stalled_host_def
  by (simp_all add: logging_credit del: list.map recv_loop.simps)

lemma stalled_host_eval:
  "running stalled_host" "map fst (out_of_order stalled_host) = [3, 2, 5]"
  "expected_seq stalled_host = 1" "window_size stalled_host = 256"
  by code_simp+

lemma stalled_host_keys: "dom (map_of (out_of_order stalled_host)) = {2, 3, 5}"
  using stalled_host_eval(2) by (simp add: dom_map_of_conv_image_fst insert_commute flip: list.set_map)

theorem poll_iter_safe_witness:
  "(\<exists>ps. progress {} ps stalled_host (snd (poll_iter 1 stalled_vars stalled_host)))
     \<and> credit_error_only (poll_iter 1 stalled_vars stalled_host)"
  by (rule poll_iter_safe [OF stalled_host_inv])

theorem stalled_gap_is_skipped_witness:
  "\<exists>v' h'. poll_loop [1, 2] stalled_vars stalled_host = (None, v', h')
     \<and> app h' = handed_over stalled_host (run (map_of (out_of_order stalled_host)) (Min (dom (map_of (out_of_order stalled_host)))))
     \<and> Min (dom (map_of (out_of_order stalled_host))) < expected_seq h'
     \<and> abs_credit h' = expected_seq h' + window_size stalled_host"
proof (rule stalled_gap_is_skipped [OF stalled_host_inv, where B = 6])
  show "out_of_order stalled_host \<noteq> []"
    using stalled_host_eval(2) by force
  show "spec_bound 6 (abs_reorder stalled_host)"
    by (simp add: spec_bound_def abs_reorder_def stalled_host_eval stalled_host_keys)
qed (simp_all add: stalled_host_eval stalled_vars_def credit_fits_def)

theorem keep_alive_silent_after_data_witness:
  "\<exists>v'. poll_loop [1, 2, 3] stalled_vars (snd (recv_loop [Datagram (fpga_data_packet 0 1 [9])] (logging_host 256 1)))
     = (None, v', snd (recv_loop [Datagram (fpga_data_packet 0 1 [9])] (logging_host 256 1)))"
  by (rule keep_alive_silent_after_data) code_simp+

theorem keep_alive_before_data_witness:
  "\<exists>v' h' pkt. poll_iter 1 \<lparr>last_data_time = 0, last_expected_seq = 0, gap_stall_start = None\<rparr> (logging_host 256 8)
     = (Inr v', h') \<and> build_credit (abs_credit (logging_host 256 8)) = Inr pkt
     \<and> outbox h' = outbox (logging_host 256 8) @ [pkt] \<and> last_data_time v' = 1"
  by (rule keep_alive_before_data) code_simp+

end
