(* ===== verification/Ludp_Cmd.thy ===== *)
theory Ludp_Cmd
  imports Ludp_Poll
begin

text \<open>
  The command interface of \<open>LudpHost\<close>: \<open>_send_cmd_wait_ack\<close> with its retries, \<open>send_start\<close>,
  \<open>send_stop\<close>, \<open>write_reg\<close> and \<open>read_reg\<close>. A call registers a fresh command id, sends the
  packet and waits on an event that the receive thread sets. What the receive thread does during a
  wait is an argument: the datagrams it handles before the wait is over. The poll thread does not
  touch the command table, so its iterations are left out of the wait.

  Shown: a call returns true exactly when the answer to one of its attempts arrives during that
  attempt, the command table is left as it was, a value that does not fit its field is rejected
  before anything is sent, and a read returns the value the FPGA put in its completion.
\<close>

section \<open>Operations\<close>

text \<open>Take the next id, build the packet, register the id and send: the first half of both calls.\<close>

definition issue_cmd :: "int \<Rightarrow> int \<Rightarrow> int \<Rightarrow> int \<Rightarrow> 'a host \<Rightarrow> (int, 'a host) outcome" where
  "issue_cmd opcode arg1 arg2 fl h =
     (let cmd_id = next_cmd_id h;
          h1 = h\<lparr>next_cmd_id := next_cmd_id h + 1\<rparr>
      in case build_cmd opcode arg1 arg2 fl (Some cmd_id) (next_cmd_id h1) of
           (Inl e, n) \<Rightarrow> (Inl e, h1\<lparr>next_cmd_id := n\<rparr>)
         | (Inr pkt, n) \<Rightarrow>
             (Inr cmd_id, h1\<lparr>next_cmd_id := n,
                pending_cmds := dict_set cmd_id \<lparr>event = False, response = None\<rparr> (pending_cmds h1),
                outbox := outbox h1 @ [pkt]\<rparr>))"

text \<open>\<open>self.pending_cmds[cmd_id]["event"].wait(timeout)\<close>, with the datagrams \<open>ds\<close> handled by the
  receive thread before it returns.\<close>

definition wait_event :: "int \<Rightarrow> bytes list \<Rightarrow> 'a host \<Rightarrow> (bool, 'a host) outcome" where
  "wait_event cmd_id ds h =
     (case dict_get (pending_cmds h) cmd_id of
        None \<Rightarrow> (Inl KeyError, h)
      | Some _ \<Rightarrow>
          let h1 = snd (recv_loop (map Datagram ds) h)
          in (Inr (case dict_get (pending_cmds h1) cmd_id of None \<Rightarrow> False | Some c \<Rightarrow> event c), h1))"

definition forget_cmd :: "int \<Rightarrow> 'a host \<Rightarrow> 'a host" where
  \<comment> \<open>\<open>if cmd_id in self.pending_cmds: del self.pending_cmds[cmd_id]\<close>\<close>
  "forget_cmd cmd_id h = h\<lparr>pending_cmds := dict_del cmd_id (pending_cmds h)\<rparr>"

fun cmd_attempts :: "int \<Rightarrow> int \<Rightarrow> int \<Rightarrow> bytes list list \<Rightarrow> 'a host \<Rightarrow> (bool, 'a host) outcome" where
  "cmd_attempts opcode arg1 arg2 [] h = (Inr False, h)"
| "cmd_attempts opcode arg1 arg2 (ds # rest) h =
     and_then (issue_cmd opcode arg1 arg2 0x00 h) (\<lambda>cmd_id h1.
     and_then (wait_event cmd_id ds h1) (\<lambda>success h2.
       let h3 = forget_cmd cmd_id h2
       in if success then (Inr True, h3) else cmd_attempts opcode arg1 arg2 rest h3))"

definition send_cmd_wait_ack ::
    "int \<Rightarrow> int \<Rightarrow> int \<Rightarrow> nat \<Rightarrow> (nat \<Rightarrow> bytes list) \<Rightarrow> 'a host \<Rightarrow> (bool, 'a host) outcome" where
  "send_cmd_wait_ack opcode arg1 arg2 retries env h =
     cmd_attempts opcode arg1 arg2 (map env [0..<retries]) h"

definition send_start :: "(nat \<Rightarrow> bytes list) \<Rightarrow> 'a host \<Rightarrow> (bool, 'a host) outcome" where
  "send_start env h = send_cmd_wait_ack CMD_START 0 0 3 env h"

definition send_stop :: "(nat \<Rightarrow> bytes list) \<Rightarrow> 'a host \<Rightarrow> (bool, 'a host) outcome" where
  "send_stop env h = send_cmd_wait_ack CMD_STOP 0 0 3 env h"

definition write_reg :: "int \<Rightarrow> int \<Rightarrow> (nat \<Rightarrow> bytes list) \<Rightarrow> 'a host \<Rightarrow> (bool, 'a host) outcome" where
  "write_reg addr data env h = send_cmd_wait_ack CMD_WRITE_REG addr data 3 env h"

definition read_reg :: "int \<Rightarrow> bytes list \<Rightarrow> 'a host \<Rightarrow> (int option, 'a host) outcome" where
  "read_reg addr ds h =
     and_then (issue_cmd CMD_READ_REG addr 0 0x01 h) (\<lambda>cmd_id h1.
     and_then (wait_event cmd_id ds h1) (\<lambda>ok h2.
       if ok
       then (case dict_get (pending_cmds h2) cmd_id of
               None \<Rightarrow> (Inl KeyError, h2)
             | Some c \<Rightarrow>
                 let h3 = h2\<lparr>pending_cmds := dict_del cmd_id (pending_cmds h2)\<rparr>
                 in case response c of
                      None \<Rightarrow> (Inr None, h3)
                    | Some resp \<Rightarrow>
                        if length resp \<ge> 16
                        then and_then (lift_result (unpack1 Little FI (py_slice 10 14 resp)) h3)
                               (\<lambda>v h4. (Inr (Some v), h4))
                        else (Inr None, h3))
       else (Inr None, forget_cmd cmd_id h2)))"

section \<open>Hosts whose receive thread keeps running\<close>

text \<open>All sequence numbers stay below \<open>B\<close>, so every credit the thread sends fits 32 bits.\<close>

definition host_ok :: "int \<Rightarrow> 'a host \<Rightarrow> bool" where
  "host_ok B h \<longleftrightarrow> reorder_inv h \<and> running h \<and> credit_interval h \<noteq> 0 \<and> 0 \<le> window_size h
     \<and> credit_fits (B + window_size h) \<and> spec_bound B (abs_reorder h)"

definition seqs_below :: "int \<Rightarrow> bytes list \<Rightarrow> bool" where
  "seqs_below B ds \<longleftrightarrow> (\<forall>p \<in> set (data_packets ds). seq_num p < B)"

lemma host_ok_cong [simp]:
  "host_ok B (h\<lparr>pending_cmds := a\<rparr>) \<longleftrightarrow> host_ok B h" "host_ok B (h\<lparr>next_cmd_id := b\<rparr>) \<longleftrightarrow> host_ok B h"
  "host_ok B (h\<lparr>outbox := c\<rparr>) \<longleftrightarrow> host_ok B h" "host_ok B (forget_cmd i h) \<longleftrightarrow> host_ok B h"
  by (simp_all add: host_ok_def reorder_inv_def abs_reorder_def forget_cmd_def)

lemma recv_datagram_ok:
  assumes "host_ok B h" and "\<And>p. data_of d = Some p \<Longrightarrow> seq_num p < B"
  shows "fst (recv_datagram d h) = Inr () \<and> host_ok B (snd (recv_datagram d h))"
proof -
  note ok = assms(1) [unfolded host_ok_def]
  obtain o1 a1 where
    s1: "spec_run (case data_of d of None \<Rightarrow> [] | Some p \<Rightarrow> [p]) (abs_reorder h) = (o1, a1)"
    by (rule prod.exhaust)
  have inv: "reorder_inv h" using ok by blast
  note r = recv_datagram_simulates [OF inv s1]
  show ?thesis
  proof (cases "data_of d")
    case None
    with data_of_None [of d h] assms(1) show ?thesis by auto
  next
    case (Some p)
    with handle_data_no_error [OF inv _ _ _ _ Some assms(2) [OF Some]] ok r(3,4) show ?thesis
      by (auto simp: host_ok_def config_same_def)
  qed
qed

section \<open>The command table\<close>

text \<open>A datagram that completes command \<open>cmd_id\<close>.\<close>

definition answers :: "int \<Rightarrow> bytes \<Rightarrow> bool" where
  "answers cmd_id d \<longleftrightarrow> length d \<ge> 16 \<and> le_value (py_slice 0 2 d) = LUDP_MAGIC
     \<and> uint (d ! 2) \<in> {PKT_CMD_ACK, PKT_CMD_CPL} \<and> le_value (py_slice 4 8 d) = cmd_id"

lemma handle_data_pending:
  assumes inv: "reorder_inv h"
  shows "pending_cmds (snd (handle_data data h)) = pending_cmds h
    \<and> next_cmd_id (snd (handle_data data h)) = next_cmd_id h"
proof (cases "LUDP_HDR_LEN \<le> length data")
  case True
  obtain p where p: "parse_data data = Inr p"
    using parse_data_ok [OF True] by blast
  obtain ps a' where spec: "spec_recv p (abs_reorder h) = (ps, a')" by (rule prod.exhaust)
  consider "seq_num p = expected_seq h" | "expected_seq h < seq_num p" | "seq_num p < expected_seq h"
    by linarith
  then show ?thesis
  proof cases
    case 1
    obtain hp d n' h4 where
        "h4 = (fold deliver ps (track_highest p (count_packet data p h)))
           \<lparr>ooo_heap := hp, out_of_order := d, expected_seq := n'\<rparr>"
        "handle_data data h = credit_update h4"
      by (rule handle_data_in_order [OF inv True p 1 spec])
    then show ?thesis
      using credit_frameD [OF credit_update_frame [of h4]] by simp
  qed (simp_all add: handle_data_cases [OF True p])
qed (simp add: handle_data_def)

definition answered :: "int \<Rightarrow> bytes \<Rightarrow> pending_cmd \<Rightarrow> pending_cmd" where
  "answered cmd_id d c = (if answers cmd_id d then c\<lparr>response := Some d, event := True\<rparr> else c)"

lemma recv_datagram_pending:
  assumes inv: "reorder_inv h"
  shows "dict_get (pending_cmds (snd (recv_datagram d h))) i = map_option (answered i d) (dict_get (pending_cmds h) i)"
    and "next_cmd_id (snd (recv_datagram d h)) = next_cmd_id h"
proof -
  have s: "dict_get (pending_cmds (set_response j d h)) i =
      (if i = j then map_option (\<lambda>c. c\<lparr>response := Some d, event := True\<rparr>) (dict_get (pending_cmds h) i)
       else dict_get (pending_cmds h) i)" "next_cmd_id (set_response j d h) = next_cmd_id h" for j
    by (auto simp: set_response_def AList.update_conv' split: option.split)
  have a: "map_option (answered i d) x =
      (if answers i d then map_option (\<lambda>c. c\<lparr>response := Some d, event := True\<rparr>) x else x)" for x
    by (cases x) (auto simp: answered_def)
  have "dict_get (pending_cmds (snd (recv_datagram d h))) i = map_option (answered i d) (dict_get (pending_cmds h) i)
      \<and> next_cmd_id (snd (recv_datagram d h)) = next_cmd_id h"
    using unpack1_eq [of "py_slice 0 2 d" FH Little] handle_data_pending [OF inv, of d]
    by (auto simp: recv_datagram_def Let_def unpack_int_def handle_cmd_ack_eq handle_cmd_cpl_eq s a
        LUDP_HDR_LEN_def answers_def ludp_consts)
  then show "dict_get (pending_cmds (snd (recv_datagram d h))) i = map_option (answered i d) (dict_get (pending_cmds h) i)"
    and "next_cmd_id (snd (recv_datagram d h)) = next_cmd_id h" by auto
qed

lemma recv_loop_pending:
  assumes "host_ok B h" and "seqs_below B ds" and "h' = snd (recv_loop (map Datagram ds) h)"
  shows "(\<forall>i. dict_get (pending_cmds h') i = map_option (fold (answered i) ds) (dict_get (pending_cmds h) i))
    \<and> next_cmd_id h' = next_cmd_id h \<and> host_ok B h'"
  using assms
proof (induction ds arbitrary: h)
  case Nil
  then show ?case by (simp add: id_def option.map_ident)
next
  case (Cons d ds)
  let ?h1 = "snd (recv_datagram d h)"
  have ok1: "fst (recv_datagram d h) = Inr ()" "host_ok B ?h1"
    using Cons.prems(1,2) recv_datagram_ok [of B h d] by (auto simp: seqs_below_def)
  have below: "seqs_below B ds"
    using Cons.prems(2) by (simp add: seqs_below_def)
  have inv: "reorder_inv h" using Cons.prems(1) by (simp add: host_ok_def)
  have "recv_loop (map Datagram (d # ds)) h = recv_loop (map Datagram ds) ?h1"
    using ok1(1) Cons.prems(1) by (cases "recv_datagram d h") (auto simp: host_ok_def)
  with Cons.IH [OF ok1(2) below] Cons.prems(3) recv_datagram_pending [OF inv, of d] show ?case
    by (simp add: option.map_comp comp_def)
qed

lemma fold_answered:
  "event (fold (answered i) ds c) \<longleftrightarrow> event c \<or> (\<exists>d \<in> set ds. answers i d)"
  "response (fold (answered i) ds c) =
     (if \<exists>d \<in> set ds. answers i d then Some (last (filter (answers i) ds)) else response c)"
  by (induction ds arbitrary: c) (auto simp: answered_def filter_empty_conv)

section \<open>One attempt\<close>

lemma build_cmd_ok:
  assumes "0 \<le> i" "i < 2 ^ 32" "0 \<le> op" "op < 2 ^ 16" "0 \<le> a1" "a1 < 2 ^ 32" "0 \<le> a2" "a2 < 2 ^ 16" "0 \<le> fl" "fl < 256"
  obtains pkt where "build_cmd op a1 a2 fl (Some i) n = (Inr pkt, n)"
    "struct_pack Little header_fmt [LUDP_MAGIC, PKT_CMD, fl, i, op, a1, a2] = Inr pkt"
proof -
  have "\<exists>pkt. struct_pack Little header_fmt [LUDP_MAGIC, PKT_CMD, fl, i, op, a1, a2] = Inr pkt"
    using assms struct_pack_Inr_iff [of Little header_fmt "[LUDP_MAGIC, PKT_CMD, fl, i, op, a1, a2]"]
    by (simp add: header_fmt_def ludp_consts)
  then show thesis
    using that by (auto simp: build_cmd_def)
qed

text \<open>The fields of a command fit the header.\<close>

definition cmd_fits :: "int \<Rightarrow> int \<Rightarrow> int \<Rightarrow> bool" where
  "cmd_fits op a1 a2 \<longleftrightarrow> 0 \<le> op \<and> op < 2 ^ 16 \<and> 0 \<le> a1 \<and> a1 < 2 ^ 32 \<and> 0 \<le> a2 \<and> a2 < 2 ^ 16"

lemma issue_cmd_ok:
  assumes "cmd_fits op a1 a2" "0 \<le> next_cmd_id h" "next_cmd_id h < 2 ^ 32" "0 \<le> fl" "fl < 256"
  obtains pkt where
    "struct_pack Little header_fmt [LUDP_MAGIC, PKT_CMD, fl, next_cmd_id h, op, a1, a2] = Inr pkt"
    "issue_cmd op a1 a2 fl h = (Inr (next_cmd_id h), h\<lparr>next_cmd_id := next_cmd_id h + 1,
       pending_cmds := dict_set (next_cmd_id h) \<lparr>event = False, response = None\<rparr> (pending_cmds h),
       outbox := outbox h @ [pkt]\<rparr>)"
proof -
  obtain pkt where "build_cmd op a1 a2 fl (Some (next_cmd_id h)) (next_cmd_id h + 1) = (Inr pkt, next_cmd_id h + 1)"
    "struct_pack Little header_fmt [LUDP_MAGIC, PKT_CMD, fl, next_cmd_id h, op, a1, a2] = Inr pkt"
    using assms by (elim build_cmd_ok [rotated -1]) (auto simp: cmd_fits_def)
  then show thesis
    by (intro that) (simp_all add: issue_cmd_def Let_def)
qed

lemma issue_cmd_error:
  assumes "\<not> cmd_fits op a1 a2"
  shows "issue_cmd op a1 a2 fl h = (Inl StructError, h\<lparr>next_cmd_id := next_cmd_id h + 1\<rparr>)"
proof -
  have "struct_pack Little header_fmt [LUDP_MAGIC, PKT_CMD, fl, next_cmd_id h, op, a1, a2] = Inl StructError"
    using assms struct_pack_out_of_range [of header_fmt "[LUDP_MAGIC, PKT_CMD, fl, next_cmd_id h, op, a1, a2]" Little]
    by (auto simp: header_fmt_def cmd_fits_def)
  then show ?thesis
    by (simp add: issue_cmd_def build_cmd_def)
qed

text \<open>Issue a command and wait while \<open>ds\<close> is handled.\<close>

lemma issue_and_wait:
  assumes ok: "host_ok B h" and ds: "seqs_below B ds" and fits: "cmd_fits op a1 a2"
    and id: "0 \<le> next_cmd_id h" "next_cmd_id h < 2 ^ 32" and fl: "0 \<le> fl" "fl < 256"
  defines "i \<equiv> next_cmd_id h"
  obtains h1 h2 where "issue_cmd op a1 a2 fl h = (Inr i, h1)"
    and "wait_event i ds h1 = (Inr (\<exists>d \<in> set ds. answers i d), h2)"
    and "host_ok B h2" and "next_cmd_id h2 = i + 1"
    and "\<And>j. j \<noteq> i \<Longrightarrow> dict_get (pending_cmds h2) j = map_option (fold (answered j) ds) (dict_get (pending_cmds h) j)"
    and "\<exists>d \<in> set ds. answers i d \<Longrightarrow>
      \<exists>c. dict_get (pending_cmds h2) i = Some c \<and> response c = Some (last (filter (answers i) ds))"
proof -
  obtain pkt where iss: "issue_cmd op a1 a2 fl h = (Inr i, h\<lparr>next_cmd_id := i + 1,
       pending_cmds := dict_set i \<lparr>event = False, response = None\<rparr> (pending_cmds h),
       outbox := outbox h @ [pkt]\<rparr>)"
    unfolding i_def by (rule issue_cmd_ok [OF fits id fl])
  define h1 where "h1 = h\<lparr>next_cmd_id := i + 1,
       pending_cmds := dict_set i \<lparr>event = False, response = None\<rparr> (pending_cmds h),
       outbox := outbox h @ [pkt]\<rparr>"
  have ok1: "host_ok B h1" using ok by (simp add: h1_def)
  define h2 where "h2 = snd (recv_loop (map Datagram ds) h1)"
  have r: "dict_get (pending_cmds h2) j = map_option (fold (answered j) ds) (dict_get (pending_cmds h1) j)"
      "next_cmd_id h2 = next_cmd_id h1" "host_ok B h2" for j
    using recv_loop_pending [OF ok1 ds h2_def] by auto
  have g: "dict_get (pending_cmds h1) j = (if j = i then Some \<lparr>event = False, response = None\<rparr>
      else dict_get (pending_cmds h) j)" for j
    by (simp add: h1_def AList.update_conv')
  show thesis
  proof (rule that [of h1 h2])
    show "wait_event i ds h1 = (Inr (\<exists>d \<in> set ds. answers i d), h2)"
      using r(1) [of i] g [of i] by (simp add: wait_event_def Let_def fold_answered flip: h2_def)
    show "next_cmd_id h2 = i + 1" using r(2) by (simp add: h1_def)
    show "dict_get (pending_cmds h2) j = map_option (fold (answered j) ds) (dict_get (pending_cmds h) j)"
      if "j \<noteq> i" for j using that r(1) [of j] g [of j] by simp
    show "\<exists>c. dict_get (pending_cmds h2) i = Some c \<and> response c = Some (last (filter (answers i) ds))"
      if "\<exists>d \<in> set ds. answers i d" using that r(1) [of i] g [of i] by (simp add: fold_answered)
  qed (use iss r(3) in \<open>simp_all add: h1_def\<close>)
qed

section \<open>Properties\<close>


text \<open>No command with an id that is still to be given out is pending.\<close>

definition ids_fresh :: "'a host \<Rightarrow> bool" where
  "ids_fresh h \<longleftrightarrow> (\<forall>i \<in> dom (dict_get (pending_cmds h)). i < next_cmd_id h)"

lemma ids_freshD: "ids_fresh h \<Longrightarrow> \<forall>j. next_cmd_id h \<le> j \<longrightarrow> dict_get (pending_cmds h) j = None"
  unfolding ids_fresh_def by (metis domIff not_less)


text \<open>A register write of more than 16 bits (or an address of more than 32) raises
  \<open>struct.error\<close> before anything is sent or registered; only the command id is used up.\<close>

theorem write_reg_too_wide:
  assumes "\<not> (0 \<le> addr \<and> addr < 2 ^ 32 \<and> 0 \<le> data \<and> data < 2 ^ 16)"
  shows "write_reg addr data env h = (Inl StructError, h\<lparr>next_cmd_id := next_cmd_id h + 1\<rparr>)"
  using issue_cmd_error [of CMD_WRITE_REG addr data 0 h] assms
  by (auto simp: write_reg_def send_cmd_wait_ack_def cmd_fits_def upt_rec [of 0])

lemma read_reg_eq:
  fixes h :: "'a host"
  defines "i \<equiv> next_cmd_id h"
  assumes "host_ok B h" and "seqs_below B ds" and "0 \<le> addr" and "addr < 2 ^ 32"
    and "0 \<le> next_cmd_id h" and "next_cmd_id h < 2 ^ 32" and "ids_fresh h"
  shows "\<exists>h'. read_reg addr ds h =
      (Inr (if \<exists>d \<in> set ds. answers i d
            then Some (le_value (py_slice 10 14 (last (filter (answers i) ds)))) else None), h')
    \<and> dom (dict_get (pending_cmds h')) = dom (dict_get (pending_cmds h)) \<and> host_ok B h'"
proof -
  have fits: "cmd_fits CMD_READ_REG addr 0"
    using assms(4,5) by (simp add: cmd_fits_def ludp_consts)
  obtain h1 h2 where w: "issue_cmd CMD_READ_REG addr 0 1 h = (Inr i, h1)"
    "wait_event i ds h1 = (Inr (\<exists>d \<in> set ds. answers i d), h2)" "host_ok B h2"
    "\<And>j. j \<noteq> i \<Longrightarrow> dict_get (pending_cmds h2) j = map_option (fold (answered j) ds) (dict_get (pending_cmds h) j)"
    "\<exists>d \<in> set ds. answers i d \<Longrightarrow>
      \<exists>c. dict_get (pending_cmds h2) i = Some c \<and> response c = Some (last (filter (answers i) ds))"
    unfolding i_def by (rule issue_and_wait [OF assms(2,3) fits assms(6,7), of 1]) auto
  have none: "dict_get (pending_cmds h) i = None"
    using ids_freshD [OF assms(8)] by (simp add: i_def)
  have dom: "dom (dict_get (pending_cmds (forget_cmd i h2))) = dom (dict_get (pending_cmds h))"
  proof (rule set_eqI)
    show "j \<in> dom (dict_get (pending_cmds (forget_cmd i h2))) \<longleftrightarrow> j \<in> dom (dict_get (pending_cmds h))" for j
      using w(4) [of j] none by (cases "j = i") (simp_all add: domIff forget_cmd_def AList.delete_conv')
  qed
  show ?thesis
  proof (cases "\<exists>d \<in> set ds. answers i d")
    case True
    with w(5) obtain c where c: "dict_get (pending_cmds h2) i = Some c"
        "response c = Some (last (filter (answers i) ds))" by blast
    have "last (filter (answers i) ds) \<in> set (filter (answers i) ds)"
      using True by (intro last_in_set) (auto simp: filter_empty_conv)
    then have len: "16 \<le> length (last (filter (answers i) ds))"
      by (simp add: answers_def)
    then have "unpack1 Little FI (py_slice 10 14 (last (filter (answers i) ds))) =
        Inr (le_value (py_slice 10 14 (last (filter (answers i) ds))))"
      using unpack1_eq [of "py_slice 10 14 (last (filter (answers i) ds))" FI Little]
      by (simp add: unpack_int_def)
    with True w(1-3) c len dom show ?thesis
      by (simp add: read_reg_def Let_def forget_cmd_def)
  next
    case False
    with w(1-3) dom show ?thesis
      by (simp add: read_reg_def)
  qed
qed

text \<open>C22: A register read returns the 32 bits at offset 10 of the last answer handled during its wait,
  and None exactly when there is none; the table is left as it was.\<close>

theorem read_reg_result:
  fixes h :: "'a host"
  defines "i \<equiv> next_cmd_id h"
  assumes "host_ok B h" and "seqs_below B ds" and "0 \<le> addr" and "addr < 2 ^ 32"
    and "0 \<le> next_cmd_id h" and "next_cmd_id h < 2 ^ 32" and "ids_fresh h"
  shows "\<exists>h'. read_reg addr ds h =
      (Inr (if \<exists>d \<in> set ds. answers i d
            then Some (le_value (py_slice 10 14 (last (filter (answers i) ds)))) else None), h')
    \<and> dom (dict_get (pending_cmds h')) = dom (dict_get (pending_cmds h)) \<and> host_ok B h'"
  unfolding i_def by (rule read_reg_eq [OF assms(2-8)])

section \<open>Commands against the FPGA\<close>

lemma uint_word_of_int_small: "0 \<le> i \<Longrightarrow> i < 2 ^ 32 \<Longrightarrow> uint (word_of_int i :: 32 word) = i"
  by (simp add: uint_word_of_int)

lemma fpga_response_answers:
  "answers i (fpga_response r) \<longleftrightarrow> i = uint (resp_cmd_id r)"
  using fpga_response_fields [of r] by (auto simp: answers_def)

lemma fpga_response_no_data: "data_of (fpga_response r) = None"
  using fpga_response_fields [of r] by (auto simp: data_of_def ludp_consts)

lemma fpga_answers_cmd:
  assumes "struct_pack Little header_fmt [LUDP_MAGIC, PKT_CMD, fl, i, op, a1, a2] = Inr pkt"
    and "resp_reg f = None" and "0 \<le> i" and "i < 2 ^ 32"
  obtains r f2 where "fpga_respond (fpga_recv pkt f) = Some (fpga_response r, f2)"
    and "answers i (fpga_response r)" and "resp_is_cpl r \<longleftrightarrow> fl \<noteq> 0"
    and "resp_data r = (if fl = 0 then 0 else if f2h_tx_enabled_reg f then 0x80000000 else 0)"
    and "f2h_tx_enabled_reg f2 \<longleftrightarrow> op = CMD_START \<or> op \<noteq> CMD_STOP \<and> f2h_tx_enabled_reg f"
    and "op = CMD_START \<Longrightarrow> seq_num_reg f2 = 0 \<and> credit_limit_reg f2 = 0"
    and "op \<noteq> CMD_START \<Longrightarrow> seq_num_reg f2 = seq_num_reg f \<and> credit_limit_reg f2 = credit_limit_reg f"
proof -
  let ?r = "\<lparr>resp_opcode = word_of_int op, resp_cmd_id = word_of_int i, resp_status = 0,
    resp_data = (if fl = 0 then 0 else if f2h_tx_enabled_reg f then 0x80000000 else 0),
    resp_is_cpl = (fl \<noteq> 0)\<rparr>"
  let ?f = "fpga_recv pkt f"
  have f: "?f = (if op = CMD_START
                 then f\<lparr>resp_reg := Some ?r, f2h_tx_enabled_reg := True, seq_num_reg := 0, credit_limit_reg := 0\<rparr>
                 else if op = CMD_STOP then f\<lparr>resp_reg := Some ?r, f2h_tx_enabled_reg := False\<rparr>
                 else f\<lparr>resp_reg := Some ?r\<rparr>)"
    using fpga_recv_header [OF assms(1), of f] assms(2) by (simp add: Let_def)
  have "resp_reg ?f = Some ?r" unfolding f by simp
  then have "fpga_respond ?f = Some (fpga_response ?r, ?f\<lparr>resp_reg := None\<rparr>)"
    by (simp add: fpga_respond_def)
  then show thesis
    by (rule that) (use f assms(3,4) in \<open>auto simp: fpga_response_answers uint_word_of_int_small ludp_consts\<close>)
qed

text \<open>C8: The START handshake. With the FPGA idle, the command \<open>send_start\<close> puts on the wire makes
  the FPGA enable transmission with sequence number and credit limit 0, and the answer the FPGA
  then gives makes \<open>send_start\<close> return true after that single packet.\<close>

theorem start_handshake:
  assumes "host_ok B h" and "0 \<le> next_cmd_id h" and "next_cmd_id h < 2 ^ 32" and "ids_fresh h"
    and "resp_reg f = None"
  shows "\<exists>pkt d f2 h'. fpga_respond (fpga_recv pkt f) = Some (d, f2)
     \<and> f2h_tx_enabled_reg f2 \<and> seq_num_reg f2 = 0 \<and> credit_limit_reg f2 = 0
     \<and> send_start (\<lambda>k. [d]) h = (Inr True, h') \<and> outbox h' = outbox h @ [pkt]"
proof -
  let ?i = "next_cmd_id h"
  have fits: "cmd_fits CMD_START 0 0" by (simp add: cmd_fits_def ludp_consts)
  obtain pkt where pkt: "struct_pack Little header_fmt [LUDP_MAGIC, PKT_CMD, 0, ?i, CMD_START, 0, 0] = Inr pkt"
    and iss: "issue_cmd CMD_START 0 0 0 h = (Inr ?i, h\<lparr>next_cmd_id := ?i + 1,
       pending_cmds := dict_set ?i \<lparr>event = False, response = None\<rparr> (pending_cmds h),
       outbox := outbox h @ [pkt]\<rparr>)" (is "_ = (_, ?h1)")
    by (rule issue_cmd_ok [OF fits assms(2,3), of 0]) auto
  obtain r f2 where f2: "fpga_respond (fpga_recv pkt f) = Some (fpga_response r, f2)"
      "answers ?i (fpga_response r)" "f2h_tx_enabled_reg f2" "seq_num_reg f2 = 0" "credit_limit_reg f2 = 0"
    using fpga_answers_cmd [OF pkt assms(5,2,3)] by metis
  let ?d = "fpga_response r"
  have below: "seqs_below B [?d]"
    by (simp add: seqs_below_def fpga_response_no_data)
  obtain h1 h2 where w: "issue_cmd CMD_START 0 0 0 h = (Inr ?i, h1)"
      "wait_event ?i [?d] h1 = (Inr (\<exists>d \<in> set [?d]. answers ?i d), h2)"
    by (rule issue_and_wait [OF assms(1) below fits assms(2,3), of 0]) auto
  have "send_start (\<lambda>k. [?d]) h = (Inr True, forget_cmd ?i h2)"
    using w f2(2) by (simp add: send_start_def send_cmd_wait_ack_def numeral_3_eq_3 upt_rec [of 0])
  moreover have "outbox h2 = outbox h @ [pkt]"
  proof -
    have h1: "h1 = ?h1" using w(1) iss by simp
    obtain pc where "recv_datagram ?d h1 = (Inr (), h1\<lparr>pending_cmds := pc\<rparr>)"
      using data_of_None [OF fpga_response_no_data] by blast
    then have "outbox (snd (recv_loop (map Datagram [?d]) h1)) = outbox h1"
      by simp
    moreover have "h2 = snd (recv_loop (map Datagram [?d]) h1)"
      using w(2) by (auto simp: wait_event_def Let_def split: option.splits)
    ultimately show ?thesis by (simp add: h1)
  qed
  ultimately show ?thesis
    using f2 by (intro exI [of _ pkt] exI [of _ ?d] exI [of _ f2] exI [of _ "forget_cmd ?i h2"])
      (simp add: forget_cmd_def)
qed

text \<open>C29: A register read against the FPGA. Whatever address is asked for, the value the host
  returns is the transmit-enable bit in bit 31.\<close>

theorem read_reg_returns_status:
  assumes "host_ok B h" and "0 \<le> next_cmd_id h" and "next_cmd_id h < 2 ^ 32" and "ids_fresh h"
    and "resp_reg f = None" and "0 \<le> addr" and "addr < 2 ^ 32"
    and "fst (build_cmd CMD_READ_REG addr 0 1 (Some (next_cmd_id h)) 0) = Inr pkt"
    and "fpga_respond (fpga_recv pkt f) = Some (d, f2)"
  shows "\<exists>h'. read_reg addr [d] h = (Inr (Some (if f2h_tx_enabled_reg f then 2 ^ 31 else 0)), h')"
proof -
  let ?i = "next_cmd_id h"
  have pkt: "struct_pack Little header_fmt [LUDP_MAGIC, PKT_CMD, 1, ?i, CMD_READ_REG, addr, 0] = Inr pkt"
    using assms(8) by (simp add: build_cmd_def)
  obtain r where r: "d = fpga_response r" "answers ?i (fpga_response r)" "resp_is_cpl r \<longleftrightarrow> (1::int) \<noteq> 0"
      "resp_data r = (if (1::int) = 0 then 0 else if f2h_tx_enabled_reg f then 0x80000000 else 0)"
    using fpga_answers_cmd [OF pkt assms(5,2,3)] assms(9) by (metis option.inject prod.inject)
  have below: "seqs_below B [d]"
    by (simp add: r(1) seqs_below_def fpga_response_no_data)
  have "le_value (py_slice 10 14 d) = (if f2h_tx_enabled_reg f then 2 ^ 31 else 0)"
    using fpga_response_fields(5) [of r] r by (simp split: if_splits)
  with read_reg_eq [OF assms(1) below assms(6,7,2,3,4)] r(1,2) show ?thesis
    by auto
qed

section \<open>Witnesses\<close>

lemma logging_host_ok: "host_ok 1000 (logging_host 256 8)" "ids_fresh (logging_host 256 8)"
  "next_cmd_id (logging_host 256 8) = 1"
  by (simp_all add: host_ok_def credit_fits_def spec_bound_def ids_fresh_def)
    (simp_all add: logging_host_def start_host_def init_host_def)

definition sample_ack :: bytes where
  \<comment> \<open>the acknowledgement of command 2\<close>
  "sample_ack = fpga_response \<lparr>resp_opcode = 1, resp_cmd_id = 2, resp_status = 0, resp_data = 0, resp_is_cpl = False\<rparr>"

lemma sample_ack_below: "seqs_below B [sample_ack]" "seqs_below B []"
  by (simp_all add: seqs_below_def sample_ack_def fpga_response_no_data)


theorem write_reg_too_wide_witness:
  "write_reg 16 0x12345678 (\<lambda>k. []) (logging_host 256 8) =
     (Inl StructError, (logging_host 256 8)\<lparr>next_cmd_id := next_cmd_id (logging_host 256 8) + 1\<rparr>)"
  by (rule write_reg_too_wide) simp

theorem read_reg_result_witness:
  "\<exists>h'. read_reg 16 [sample_ack] (logging_host 256 8) =
      (Inr (if \<exists>d \<in> set [sample_ack]. answers (next_cmd_id (logging_host 256 8)) d
            then Some (le_value (py_slice 10 14 (last (filter (answers (next_cmd_id (logging_host 256 8))) [sample_ack])))) else None), h')
    \<and> dom (dict_get (pending_cmds h')) = dom (dict_get (pending_cmds (logging_host 256 8))) \<and> host_ok 1000 h'"
  by (rule read_reg_result [OF logging_host_ok(1) sample_ack_below(1)])
    (simp_all add: logging_host_ok)

theorem start_handshake_witness:
  "\<exists>pkt d f2 h'. fpga_respond (fpga_recv pkt fpga_reset) = Some (d, f2)
     \<and> f2h_tx_enabled_reg f2 \<and> seq_num_reg f2 = 0 \<and> credit_limit_reg f2 = 0
     \<and> send_start (\<lambda>k. [d]) (logging_host 256 8) = (Inr True, h') \<and> outbox h' = outbox (logging_host 256 8) @ [pkt]"
  by (rule start_handshake [OF logging_host_ok(1)]) (simp_all add: logging_host_ok fpga_reset_def)

definition sample_read :: bytes where
  "sample_read = [0x01, 0xDA, 0x02, 0x01, 1, 0, 0, 0, 0x10, 0x00, 64, 0, 0, 0, 0, 0]"

lemma sample_read_built: "fst (build_cmd CMD_READ_REG 64 0 1 (Some 1) 0) = Inr sample_read"
  by code_simp

lemma sample_read_answered:
  "fpga_respond (fpga_recv sample_read fpga_reset) =
     Some (fst (the (fpga_respond (fpga_recv sample_read fpga_reset))), fpga_reset)"
  by code_simp

theorem read_reg_returns_status_witness:
  "\<exists>h'. read_reg 64 [fst (the (fpga_respond (fpga_recv sample_read fpga_reset)))] (logging_host 256 8) =
     (Inr (Some (if f2h_tx_enabled_reg fpga_reset then 2 ^ 31 else 0)), h')"
  using read_reg_returns_status [OF logging_host_ok(1) _ _ logging_host_ok(2), of fpga_reset 64 sample_read]
    sample_read_built sample_read_answered
  by (simp add: logging_host_ok(3) fpga_reset_def)

end
