(* ===== verification/Ludp_System.thy ===== *)
theory Ludp_System
  imports Ludp_Cmd
begin

text \<open>
  The host and the FPGA together. A step is one datagram handled by the receive thread, one
  iteration of the poll thread, one call of the main thread, one packet sent or received by the
  FPGA. The network is a set of datagrams in each direction that only grows: a datagram may be
  delivered late, out of order, many times or never. Each thread stops for good when it raises.

  Shown for every reachable state: deliveries are strictly increasing and come from the FPGA,
  the host only ever sends commands and credits, and, while sequence numbers are below
  \<open>2\<^sup>31\<close>, credit flow control bounds what is in flight and what is buffered by the window.
\<close>

section \<open>The contract of a thread\<close>

text \<open>A thread's step makes progress from the packets its input carries.\<close>

locale host_thread =
  fixes step :: "'i \<Rightarrow> LudpDataPacket list host \<Rightarrow> ('r, LudpDataPacket list host) outcome"
    and carries :: "'i \<Rightarrow> LudpDataPacket set"
  assumes step_progress: "reorder_inv h \<Longrightarrow> credit_inv h \<Longrightarrow> \<exists>ps. progress (carries i) ps h (snd (step i h))"
begin

lemma step_credit_mono:
  "reorder_inv h \<Longrightarrow> credit_inv h \<Longrightarrow> abs_credit h \<le> abs_credit (snd (step i h))"
  using step_progress [of h i] by (auto simp: progress_def)

end

section \<open>State and steps\<close>

record system =
  host_of :: "LudpDataPacket list host"
  recv_alive :: bool
  poll_of :: "poll_vars option"
  fpga_of :: fpga
  sent_up :: "bytes set"   \<comment> \<open>every datagram the FPGA has sent\<close>

inductive sys_step :: "system \<Rightarrow> system \<Rightarrow> bool" where
  recv: "recv_alive s \<Longrightarrow> running (host_of s) \<Longrightarrow> d \<in> sent_up s \<Longrightarrow> recv_datagram d (host_of s) = (r, h') \<Longrightarrow>
    sys_step s (s\<lparr>host_of := h', recv_alive := (r = Inr ())\<rparr>)"
| poll: "poll_of s = Some v \<Longrightarrow> running (host_of s) \<Longrightarrow> poll_iter now v (host_of s) = (r, h') \<Longrightarrow>
    sys_step s (s\<lparr>host_of := h', poll_of := (case r of Inl e \<Rightarrow> None | Inr v' \<Rightarrow> Some v')\<rparr>)"
| user_credit: "send_credit (abs_credit (host_of s)) (host_of s) = (r, h') \<Longrightarrow> sys_step s (s\<lparr>host_of := h'\<rparr>)"
| user_cmd: "issue_cmd op a1 a2 fl (host_of s) = (r, h') \<Longrightarrow> sys_step s (s\<lparr>host_of := h'\<rparr>)"
| user_forget: "sys_step s (s\<lparr>host_of := forget_cmd i (host_of s)\<rparr>)"
| fpga_tx: "fpga_send pl (fpga_of s) = Some (d, f') \<Longrightarrow>
    sys_step s (s\<lparr>fpga_of := f', sent_up := insert d (sent_up s)\<rparr>)"
| fpga_resp: "fpga_respond (fpga_of s) = Some (d, f') \<Longrightarrow>
    sys_step s (s\<lparr>fpga_of := f', sent_up := insert d (sent_up s)\<rparr>)"
| fpga_rx: "pkt \<in> set (outbox (host_of s)) \<Longrightarrow> sys_step s (s\<lparr>fpga_of := fpga_recv pkt (fpga_of s)\<rparr>)"

definition sys_init :: "int \<Rightarrow> int \<Rightarrow> system" where
  "sys_init window interval =
     \<lparr>host_of = logging_host window interval, recv_alive = True,
      poll_of = Some (poll_start 0 (logging_host window interval)),
      fpga_of = fpga_reset, sent_up = {}\<rparr>"

abbreviation reachable :: "int \<Rightarrow> int \<Rightarrow> system \<Rightarrow> bool" where
  "reachable window interval s \<equiv> sys_step\<^sup>*\<^sup>* (sys_init window interval) s"

section \<open>Invariants\<close>

definition packets_of :: "bytes set \<Rightarrow> LudpDataPacket set" where
  "packets_of U = {p. \<exists>d \<in> U. data_of d = Some p}"

text \<open>A command, or a credit of at most \<open>c\<close>.\<close>

definition control_upto :: "int \<Rightarrow> bytes \<Rightarrow> bool" where
  "control_upto c pkt \<longleftrightarrow> (\<exists>t fl s op a1 a2.
     struct_pack Little header_fmt [LUDP_MAGIC, t, fl, s, op, a1, a2] = Inr pkt
     \<and> (t = PKT_CMD \<or> t = PKT_CREDIT \<and> s \<le> c))"

definition host_inv :: "bytes set \<Rightarrow> LudpDataPacket list host \<Rightarrow> bool" where
  "host_inv U h \<longleftrightarrow> reorder_inv h \<and> credit_inv h \<and> 0 \<le> abs_credit h \<and> on_data h = Some log_packet
     \<and> sorted_wrt (<) (map seq_num (app h)) \<and> (\<forall>p \<in> set (app h). seq_num p < expected_seq h)
     \<and> set (app h) \<subseteq> packets_of U \<and> ran (map_of (out_of_order h)) \<subseteq> packets_of U
     \<and> (\<forall>pkt \<in> set (outbox h). control_upto (abs_credit h) pkt)"

definition flow_inv :: "bytes set \<Rightarrow> fpga \<Rightarrow> LudpDataPacket list host \<Rightarrow> bool" where
  "flow_inv U f h \<longleftrightarrow> uint (credit_limit_reg f) \<le> abs_credit h \<and> uint (seq_num_reg f) \<le> abs_credit h
     \<and> (\<forall>p \<in> packets_of U. seq_num p < abs_credit h)"

lemma packets_of_insert [simp]:
  "packets_of (insert d U) = set_option (data_of d) \<union> packets_of U"
  by (auto simp: packets_of_def)

lemma packets_of_empty [simp]: "packets_of {} = {}"
  by (simp add: packets_of_def)

lemma control_upto_mono: "control_upto c pkt \<Longrightarrow> c \<le> c' \<Longrightarrow> control_upto c' pkt"
  by (force simp: control_upto_def)

lemma credits_control: "credits_upto c pkts \<Longrightarrow> \<forall>pkt \<in> set pkts. control_upto c pkt"
  by (force simp: credits_upto_def control_upto_def build_credit_def)

lemma host_inv_mono: "host_inv U h \<Longrightarrow> packets_of U \<subseteq> packets_of U' \<Longrightarrow> host_inv U' h"
  by (auto simp: host_inv_def)

text \<open>Progress keeps the invariants.\<close>

lemma host_inv_progress:
  assumes inv: "host_inv U h" and pr: "progress R ps h h'" and R: "R \<subseteq> packets_of U"
  shows "host_inv U h'"
proof -
  have i: "on_data h = Some log_packet" "sorted_wrt (<) (map seq_num (app h))"
      "\<And>q. q \<in> set (app h) \<Longrightarrow> seq_num q < expected_seq h" "set (app h) \<subseteq> packets_of U"
      "ran (map_of (out_of_order h)) \<subseteq> packets_of U" "\<And>pkt. pkt \<in> set (outbox h) \<Longrightarrow> control_upto (abs_credit h) pkt"
      "0 \<le> abs_credit h"
    using inv unfolding host_inv_def by blast+
  have p: "on_data h' = on_data h" "app h' = handed_over h ps" "sorted_wrt (<) (map seq_num ps)"
      "\<And>q. q \<in> set ps \<Longrightarrow> expected_seq h \<le> seq_num q \<and> seq_num q < expected_seq h'"
      "expected_seq h \<le> expected_seq h'" "set ps \<subseteq> R \<union> ran (map_of (out_of_order h))"
      "ran (map_of (out_of_order h')) \<subseteq> R \<union> ran (map_of (out_of_order h))"
      "abs_credit h \<le> abs_credit h'" "credit_inv h'" "reorder_inv h'"
      "\<exists>pkts. outbox h' = outbox h @ pkts \<and> credits_upto (abs_credit h') pkts"
    using pr unfolding progress_def config_same_def by blast+
  have app: "app h' = app h @ ps"
    using i(1) p(2) by (simp add: handed_over_def)
  have "sorted_wrt (<) (map seq_num (app h'))"
    using i(2) p(3) less_le_trans [OF i(3) conjunct1 [OF p(4)]] unfolding app by (auto simp: sorted_wrt_append)
  moreover have "seq_num q < expected_seq h'" if "q \<in> set (app h')" for q
    using that i(3) [of q] p(4) [of q] p(5) unfolding app by auto
  moreover have "set (app h') \<subseteq> packets_of U"
    using i(4,5) p(6) R unfolding app by auto
  moreover have "ran (map_of (out_of_order h')) \<subseteq> packets_of U"
    using i(5) p(7) R by blast
  moreover obtain pkts where "outbox h' = outbox h @ pkts" "credits_upto (abs_credit h') pkts"
    using p(11) by blast
  then have "\<forall>pkt \<in> set (outbox h'). control_upto (abs_credit h') pkt"
    using i(6) p(8) credits_control [of "abs_credit h'" pkts] by (auto intro: control_upto_mono)
  ultimately show ?thesis
    using i(1,7) p(1,8-10) unfolding host_inv_def by auto
qed

lemma flow_inv_mono: "flow_inv U f h \<Longrightarrow> abs_credit h \<le> abs_credit h' \<Longrightarrow> flow_inv U f h'"
  by (force simp: flow_inv_def)

context host_thread
begin

lemma step_host_inv: "host_inv U h \<Longrightarrow> carries i \<subseteq> packets_of U \<Longrightarrow> host_inv U (snd (step i h))"
  using step_progress [of h i] host_inv_progress [of U h] by (metis host_inv_def)

lemma step_flow_inv: "host_inv U h \<Longrightarrow> flow_inv U f h \<Longrightarrow> flow_inv U f (snd (step i h))"
  using step_credit_mono [of h i] by (auto simp: host_inv_def intro: flow_inv_mono)

end

interpretation recv: host_thread recv_datagram "\<lambda>d. set_option (data_of d)"
  by unfold_locales (rule recv_datagram_progress)

interpretation poll: host_thread "\<lambda>(now, v). poll_iter now v" "\<lambda>_. {}"
  by unfold_locales (auto intro: poll_iter_progress)

interpretation grant: host_thread "\<lambda>u h. send_credit (abs_credit h) h" "\<lambda>_ :: unit. {}"
  by unfold_locales (auto intro: send_credit_progress)

lemma issue_cmd_inv:
  assumes "host_inv U h" and "issue_cmd op a1 a2 fl h = (r, h')"
  shows "host_inv U h' \<and> abs_credit h' = abs_credit h"
proof (cases "struct_pack Little header_fmt [LUDP_MAGIC, PKT_CMD, fl, next_cmd_id h, op, a1, a2]")
  case (Inl e)
  with assms show ?thesis
    by (auto simp: issue_cmd_def build_cmd_def host_inv_def reorder_inv_def credit_inv_def)
next
  case (Inr pkt)
  then have "control_upto c pkt" for c
    unfolding control_upto_def by blast
  with Inr assms show ?thesis
    by (auto simp: issue_cmd_def build_cmd_def Let_def host_inv_def reorder_inv_def credit_inv_def)
qed

lemma forget_cmd_inv: "host_inv U (forget_cmd i h) \<longleftrightarrow> host_inv U h" "abs_credit (forget_cmd i h) = abs_credit h"
  by (simp_all add: forget_cmd_def host_inv_def reorder_inv_def credit_inv_def)

section \<open>The FPGA keeps the flow invariant\<close>

lemma data_of_fpga_data: "data_of (fpga_data_packet s sz pl) = Some \<lparr>magic = LUDP_MAGIC,
    pkt_type = PKT_DATA, flags = 0, seq_num = uint s, payload_len = uint sz, timestamp = 0, payload = pl\<rparr>"
proof -
  have "LUDP_HDR_LEN \<le> length (fpga_data_packet s sz pl)"
    by (simp add: fpga_data_packet_def LUDP_HDR_LEN_def)
  moreover have "le_value (py_slice 0 2 (fpga_data_packet s sz pl)) = LUDP_MAGIC"
      "uint (fpga_data_packet s sz pl ! 2) = PKT_DATA"
    using header_slices(2-) [OF header_packed [of TYPE_DATA 0 s sz 0 0], of pl]
    by (auto simp: fpga_data_packet_def ludp_consts)
  ultimately show ?thesis
    by (simp add: data_of_def parse_fpga_data)
qed

lemma fpga_send_flow:
  assumes "flow_inv U f h" and "abs_credit h < 2 ^ 31" and "fpga_send pl f = Some (d, f')"
  shows "flow_inv (insert d U) f' h"
proof -
  have f: "f2h_tx_ok f" "f' = f\<lparr>seq_num_reg := seq_num_reg f + 1\<rparr>"
      "d = fpga_data_packet (seq_num_reg f) (word_of_nat (length pl)) pl"
    using assms(3) by (auto simp: fpga_send_def split: if_splits)
  have lim: "uint (credit_limit_reg f) < 2 ^ 31" "uint (seq_num_reg f) < 2 ^ 31"
    using assms(1,2) by (auto simp: flow_inv_def)
  have "sint (credit_limit_reg f - seq_num_reg f) = uint (credit_limit_reg f) - uint (seq_num_reg f)"
    using sint_diff_small [of "uint (credit_limit_reg f)" "uint (seq_num_reg f)"] lim by simp
  then have lt: "uint (seq_num_reg f) < uint (credit_limit_reg f)"
    using f(1) by (simp add: f2h_tx_ok_def)
  then have "uint (seq_num_reg f + 1) = uint (seq_num_reg f) + 1"
    using lim by (simp add: uint_word_ariths)
  with lt assms(1) show ?thesis
    by (simp add: flow_inv_def f data_of_fpga_data)
qed

lemma fpga_recv_flow:
  assumes "flow_inv U f h" and "control_upto (abs_credit h) pkt" and "0 \<le> abs_credit h"
  shows "flow_inv U (fpga_recv pkt f) h"
proof -
  obtain t fl s op a1 a2 where p: "struct_pack Little header_fmt [LUDP_MAGIC, t, fl, s, op, a1, a2] = Inr pkt"
      "t = PKT_CMD \<or> t = PKT_CREDIT \<and> s \<le> abs_credit h"
    using assms(2) by (auto simp: control_upto_def)
  have "0 \<le> s" "s < 2 ^ 32" using header_bytes(2-) [OF p(1)] by auto
  then have "uint (word_of_int s :: 32 word) = s" by (rule uint_word_of_int_small)
  with assms(1,3) p(2) show ?thesis
    by (auto simp: flow_inv_def fpga_recv_header [OF p(1)] Let_def ludp_consts)
qed

lemma fpga_respond_flow:
  "flow_inv U f h \<Longrightarrow> fpga_respond f = Some (d, f') \<Longrightarrow> flow_inv (insert d U) f' h"
  by (auto simp: flow_inv_def fpga_respond_def fpga_response_no_data)

section \<open>Every step\<close>

definition sys_inv :: "system \<Rightarrow> bool" where
  "sys_inv s \<longleftrightarrow> host_inv (sent_up s) (host_of s)"

definition sys_flow :: "system \<Rightarrow> bool" where
  "sys_flow s \<longleftrightarrow> flow_inv (sent_up s) (fpga_of s) (host_of s)"

lemma sys_step_inv:
  assumes "sys_step s s'" and "sys_inv s"
  shows "sys_inv s' \<and> abs_credit (host_of s) \<le> abs_credit (host_of s')"
  using assms
proof cases
  case (recv d r h')
  then have "h' = snd (recv_datagram d (host_of s))" by simp
  moreover have "set_option (data_of d) \<subseteq> packets_of (sent_up s)"
    using recv(4) by (auto simp: packets_of_def)
  ultimately show ?thesis
    using assms(2) recv(1) recv.step_host_inv [of "sent_up s" "host_of s" d] recv.step_credit_mono [of "host_of s" d]
    by (auto simp: sys_inv_def host_inv_def)
next
  case (poll v now r h')
  then have "h' = snd (poll_iter now v (host_of s))" by simp
  then show ?thesis
    using assms(2) poll(1) poll.step_host_inv [of "sent_up s" "host_of s" "(now, v)"]
      poll.step_credit_mono [of "host_of s" "(now, v)"]
    by (auto simp: sys_inv_def host_inv_def)
next
  case (user_credit r h')
  then have "h' = snd (send_credit (abs_credit (host_of s)) (host_of s))" by simp
  then show ?thesis
    using assms(2) user_credit(1) grant.step_host_inv [of "sent_up s" "host_of s"]
      grant.step_credit_mono [of "host_of s"]
    by (auto simp: sys_inv_def host_inv_def)
next
  case (user_cmd op a1 a2 fl r h')
  then show ?thesis
    using assms(2) issue_cmd_inv [of "sent_up s" "host_of s"] by (simp add: sys_inv_def)
next
  case (user_forget i)
  then show ?thesis
    using assms(2) by (simp add: sys_inv_def forget_cmd_inv)
qed (use assms(2) in \<open>auto simp: sys_inv_def intro: host_inv_mono\<close>)

lemma sys_step_flow:
  assumes step: "sys_step s s'" and inv: "sys_inv s" and flow: "sys_flow s"
    and bound: "abs_credit (host_of s) < 2 ^ 31"
  shows "sys_flow s'"
  using step
proof cases
  case (fpga_tx pl d f')
  then show ?thesis
    using fpga_send_flow [OF flow [unfolded sys_flow_def] bound] by (simp add: sys_flow_def)
next
  case (fpga_resp d f')
  then show ?thesis
    using fpga_respond_flow [OF flow [unfolded sys_flow_def]] by (simp add: sys_flow_def)
next
  case (fpga_rx pkt)
  then have "control_upto (abs_credit (host_of s)) pkt"
    using inv by (auto simp: sys_inv_def host_inv_def)
  with fpga_rx inv show ?thesis
    using fpga_recv_flow [OF flow [unfolded sys_flow_def]] by (simp add: sys_flow_def sys_inv_def host_inv_def)
qed (use sys_step_inv [OF step inv] flow in \<open>auto simp: sys_flow_def intro: flow_inv_mono\<close>)

lemma sys_init_inv:
  assumes "0 \<le> window"
  shows "sys_inv (sys_init window interval)" and "sys_flow (sys_init window interval)"
  using assms
  by (simp_all add: sys_inv_def sys_flow_def sys_init_def host_inv_def flow_inv_def logging_credit fpga_reset_def)
    (simp add: logging_host_def start_host_def init_host_def)

lemma reachable_inv:
  assumes "reachable window interval s" and "0 \<le> window"
  shows "sys_inv s \<and> (abs_credit (host_of s) < 2 ^ 31 \<longrightarrow> sys_flow s)"
  using assms
proof (induction rule: rtranclp_induct)
  case base
  then show ?case using sys_init_inv by blast
next
  case (step s s')
  then show ?case
    using sys_step_inv [of s s'] sys_step_flow [of s s'] by fastforce
qed



section \<open>Properties\<close>



text \<open>C27: The host never sends a NACK: every datagram it ever puts on the wire is a command or a
  credit, so a lost packet is never asked for again.\<close>

theorem system_never_nacks:
  assumes "reachable window interval s" and "0 \<le> window" and "pkt \<in> set (outbox (host_of s))"
  shows "length pkt = 16 \<and> uint (pkt ! 2) \<in> {PKT_CMD, PKT_CREDIT} \<and> uint (pkt ! 2) \<noteq> PKT_NACK"
proof -
  obtain t fl sq op a1 a2 where p: "struct_pack Little header_fmt [LUDP_MAGIC, t, fl, sq, op, a1, a2] = Inr pkt"
      "t = PKT_CMD \<or> t = PKT_CREDIT"
    using reachable_inv [OF assms(1,2)] assms(3) by (auto simp: sys_inv_def host_inv_def control_upto_def)
  with header_slices(1) [OF p(1)] header_slices(3) [OF p(1), of "[]"] show ?thesis
    by (auto simp: ludp_consts)
qed

section \<open>A run\<close>

text \<open>START is sent and received, the credit is sent and received, a packet goes up and is handled.\<close>

definition sample_s1 :: system where
  "sample_s1 = (let s = sys_init 4 1 in s\<lparr>host_of := snd (issue_cmd CMD_START 0 0 0 (host_of s))\<rparr>)"

definition sample_s2 :: system where
  "sample_s2 = (let s = sample_s1 in s\<lparr>fpga_of := fpga_recv (last (outbox (host_of s))) (fpga_of s)\<rparr>)"

definition sample_s3 :: system where
  "sample_s3 = (let s = sample_s2 in s\<lparr>host_of := snd (send_credit (abs_credit (host_of s)) (host_of s))\<rparr>)"

definition sample_s4 :: system where
  "sample_s4 = (let s = sample_s3 in s\<lparr>fpga_of := fpga_recv (last (outbox (host_of s))) (fpga_of s)\<rparr>)"

definition sample_s5 :: system where
  "sample_s5 = (let s = sample_s4; (d, f) = the (fpga_send [42] (fpga_of s))
     in s\<lparr>fpga_of := f, sent_up := insert d (sent_up s)\<rparr>)"

definition sample_s6 :: system where
  "sample_s6 = (let s = sample_s5; d = fpga_data_packet 0 1 [42]
     in s\<lparr>host_of := snd (recv_datagram d (host_of s)), recv_alive := (fst (recv_datagram d (host_of s)) = Inr ())\<rparr>)"

lemma sample_facts:
  "outbox (host_of sample_s1) \<noteq> []" "outbox (host_of sample_s3) \<noteq> []"
  "fpga_send [42] (fpga_of sample_s4) \<noteq> None" "recv_alive sample_s5" "running (host_of sample_s5)"
  "fpga_data_packet 0 1 [42] \<in> sent_up sample_s5" "map seq_num (app (host_of sample_s6)) = [0]"
  "abs_credit (host_of sample_s6) = 5" "length (outbox (host_of sample_s6)) = 3"
  by code_simp+

lemma sample_reachable: "reachable 4 1 sample_s6"
proof -
  have "sys_step (sys_init 4 1) sample_s1"
    unfolding sample_s1_def Let_def by (rule sys_step.user_cmd [where r = "fst (issue_cmd CMD_START 0 0 0 (host_of (sys_init 4 1)))"]) simp
  moreover have "sys_step sample_s1 sample_s2"
    unfolding sample_s2_def Let_def by (rule sys_step.fpga_rx) (simp add: sample_facts)
  moreover have "sys_step sample_s2 sample_s3"
    unfolding sample_s3_def Let_def
    by (rule sys_step.user_credit [where r = "fst (send_credit (abs_credit (host_of sample_s2)) (host_of sample_s2))"]) simp
  moreover have "sys_step sample_s3 sample_s4"
    unfolding sample_s4_def Let_def by (rule sys_step.fpga_rx) (simp add: sample_facts)
  moreover have "sys_step sample_s4 sample_s5"
    using sample_facts(3) unfolding sample_s5_def Let_def by (auto simp: split_beta intro: sys_step.fpga_tx)
  moreover have "sys_step sample_s5 sample_s6"
    unfolding sample_s6_def Let_def by (rule sys_step.recv [OF sample_facts(4-6)]) simp
  ultimately show ?thesis
    by (meson converse_rtranclp_into_rtranclp rtranclp.rtrancl_refl)
qed



theorem system_never_nacks_witness:
  "length (hd (outbox (host_of sample_s6))) = 16
     \<and> uint (hd (outbox (host_of sample_s6)) ! 2) \<in> {PKT_CMD, PKT_CREDIT}
     \<and> uint (hd (outbox (host_of sample_s6)) ! 2) \<noteq> PKT_NACK"
proof -
  have "hd (outbox (host_of sample_s6)) \<in> set (outbox (host_of sample_s6))"
    using sample_facts(9) by (intro hd_in_set) auto
  with system_never_nacks [OF sample_reachable] show ?thesis by simp
qed

end
