(* ===== verification/Ludp_Threads.thy ===== *)
theory Ludp_Threads
  imports Ludp_System
begin

text \<open>
  The background threads of \<open>LudpHost\<close> as the main thread sees them: a list of events, each a datagram
  handled or a socket error of the receive thread, or an iteration of the poll thread. The relation
  \<open>move\<close> lists the elementary changes any handler makes to the host; every operation of the threads
  is a sequence of moves. The locale \<open>thread_invariant\<close> is the contract of a property that moves keep,
  \<open>client_invariant\<close> that of one that commands keep as well; what they give for whole runs is proved
  once, and used for the start time, the credit, the command ids and the types of all counters.
\<close>

section \<open>Threads\<close>

datatype thread_event = RecvEv bytes | RecvErr | PollEv rat

record threads =
  recv_on :: bool
  poll_on :: "poll_vars option"

definition thread_step :: "thread_event \<Rightarrow> threads \<times> 'a host \<Rightarrow> threads \<times> 'a host" where
  "thread_step ev s = (case s of (t, h) \<Rightarrow>
     if \<not> running h then s
     else case ev of
         RecvEv d \<Rightarrow>
           if recv_on t
           then (case recv_datagram d h of (r, h') \<Rightarrow> (t\<lparr>recv_on := (r = Inr ())\<rparr>, h')) else s
       | RecvErr \<Rightarrow> (t\<lparr>recv_on := False\<rparr>, h)
       | PollEv now \<Rightarrow>
           (case poll_on t of
              None \<Rightarrow> s
            | Some v \<Rightarrow> (case poll_iter now v h of
                  (Inl e, h') \<Rightarrow> (t\<lparr>poll_on := None\<rparr>, h')
                | (Inr v', h') \<Rightarrow> (t\<lparr>poll_on := Some v'\<rparr>, h'))))"

definition run_threads :: "thread_event list \<Rightarrow> threads \<times> 'a host \<Rightarrow> threads \<times> 'a host" where
  "run_threads evs s = fold thread_step evs s"

section \<open>Moves\<close>

abbreviation counted :: "bytes \<Rightarrow> LudpDataPacket \<Rightarrow> 'a host \<Rightarrow> 'a host" where
  "counted d p h \<equiv> track_highest p (count_packet d p h)"

inductive move :: "'a host \<Rightarrow> 'a host \<Rightarrow> bool" where
  arrive_next: "data_of d = Some p \<Longrightarrow> move h ((deliver p (counted d p h))\<lparr>expected_seq := e, ooo_heap := hp\<rparr>)"
| arrive_future: "data_of d = Some p \<Longrightarrow> move h (store_future p (counted d p h))"
| arrive_old: "data_of d = Some p \<Longrightarrow> move h (counted d p h)"
| drain_one: "dict_get (out_of_order h) k = Some p \<Longrightarrow>
    move h ((deliver p (h\<lparr>ooo_heap := hp, out_of_order := dict_del k (out_of_order h)\<rparr>))\<lparr>expected_seq := e\<rparr>)"
| skip_gap: "0 \<le> n \<Longrightarrow>
    move h (h\<lparr>ooo_heap := hp, stats := (stats h)\<lparr>gap_count := gap_count (stats h) + n\<rparr>, expected_seq := e\<rparr>)"
| clean_heap: "move h (h\<lparr>ooo_heap := hp\<rparr>)"
| send: "credit_fits c \<Longrightarrow> move h (snd (send_credit c h))"
| grant: "credit_fits c \<Longrightarrow> move h ((snd (send_credit c h))\<lparr>abs_credit := c\<rparr>)"
| respond: "move h (h\<lparr>pending_cmds := pc\<rparr>)"

abbreviation moves :: "'a host \<Rightarrow> 'a host \<Rightarrow> bool" where
  "moves \<equiv> move\<^sup>*\<^sup>*"

lemma moves_and_then:
  "moves h (snd r) \<Longrightarrow> (\<And>x. fst r = Inr x \<Longrightarrow> moves (snd r) (snd (k x (snd r)))) \<Longrightarrow> moves h (snd (and_then r k))"
  by (rule and_then_rel) (auto intro: rtranclp_trans)

lemma send_credit_rejected: "\<not> credit_fits c \<Longrightarrow> send_credit c h = (Inl StructError, h)"
  by (cases rule: send_credit_cases [of c h]) (auto simp: credit_fits_def)

lemma send_credit_accepted: "credit_fits c \<Longrightarrow> send_credit c h = (Inr (), snd (send_credit c h))"
  using fst_send_credit [of c h] by (metis prod.collapse)

lemma send_moves: "moves h (snd (and_then (send_credit c h) (\<lambda>_ h1. (Inr x, h1))))"
proof (cases "credit_fits c")
  case True
  show ?thesis by (subst send_credit_accepted [OF True]) (simp add: send True r_into_rtranclp)
qed (simp add: send_credit_rejected)

lemma grant_moves: "moves h (snd (and_then (send_credit c h) (\<lambda>_ h1. (Inr x, h1\<lparr>abs_credit := c\<rparr>))))"
proof (cases "credit_fits c")
  case True
  show ?thesis by (subst send_credit_accepted [OF True]) (simp add: grant True r_into_rtranclp)
qed (simp add: send_credit_rejected)

lemma advance_credit_moves: "moves h (snd (advance_credit h))"
  by (simp add: advance_credit_def Let_def grant_moves)

lemma credit_update_moves: "moves h (snd (credit_update h))"
  by (simp add: credit_update_def advance_credit_moves)

lemma drain_ready_moves: "moves h (snd (drain_ready h))"
proof (induction h rule: drain_ready.induct)
  case (1 h)
  show ?case
  proof (cases "heap_top (ooo_heap h) = Some (expected_seq h) \<and> (\<exists>k hp. heappop (ooo_heap h) = Inr (k, hp))")
    case True
    then obtain k hp where top: "heap_top (ooo_heap h) = Some (expected_seq h)" and pop: "heappop (ooo_heap h) = Inr (k, hp)" by blast
    show ?thesis
    proof (cases "dict_get (out_of_order h) k")
      case None
      with top pop show ?thesis by (subst drain_ready.simps) (simp add: clean_heap r_into_rtranclp)
    next
      case (Some p)
      let ?h1 = "deliver p (h\<lparr>ooo_heap := hp, out_of_order := dict_del k (out_of_order h)\<rparr>)"
      have "move h (?h1\<lparr>expected_seq := expected_seq ?h1 + 1\<rparr>)" by (rule drain_one [OF Some])
      moreover have "moves (?h1\<lparr>expected_seq := expected_seq ?h1 + 1\<rparr>) (snd (drain_ready (?h1\<lparr>expected_seq := expected_seq ?h1 + 1\<rparr>)))"
        by (rule 1 [OF top pop refl Some refl])
      ultimately show ?thesis
        using top pop Some by (subst drain_ready.simps) (simp add: Let_def converse_rtranclp_into_rtranclp)
    qed
  next
    case False
    then show ?thesis by (subst drain_ready.simps) (auto split: sum.split)
  qed
qed

lemma handle_data_moves:
  assumes "data_of d = Some p"
  shows "moves h (snd (handle_data d h))"
proof -
  let ?c = "counted d p h"
  have in_order: "moves h (snd (handle_in_order p ?c))"
    unfolding handle_in_order_def Let_def
    by (intro moves_and_then credit_update_moves
        converse_rtranclp_into_rtranclp [OF arrive_next [OF assms] drain_ready_moves])
  show ?thesis
    using in_order arrive_future [OF assms, of h] arrive_old [OF assms, of h] data_of_Some(1,2) [OF assms]
    by (auto simp: handle_data_def Let_def)
qed

lemma recv_datagram_moves: "moves h (snd (recv_datagram d h))"
proof (cases "data_of d")
  case None
  then show ?thesis using data_of_None [OF None, of h] respond [of h] by auto
next
  case (Some p)
  then show ?thesis using handle_data_moves [OF Some, of h] data_of_Some(3) [OF Some, of h] by simp
qed

lemma heappop_top: "heap_top hp = Some x \<Longrightarrow> heappop hp \<noteq> Inl e"
  by (auto simp: heappop_def heap_top_def Let_def)

lemma drop_stale_top: "heap_top (drop_stale e hp) = Some k \<Longrightarrow> e \<le> k"
proof (induction e hp rule: drop_stale.induct)
  case (1 e hp)
  show ?case
  proof (cases "\<exists>x y hp'. heap_top hp = Some x \<and> x < e \<and> heappop hp = Inr (y, hp')")
    case True
    then obtain x y hp' where "heap_top hp = Some x" "x < e" "heappop hp = Inr (y, hp')" by blast
    with 1 show ?thesis by (simp add: drop_stale.simps [of e hp])
  next
    case False
    with 1(2) heappop_top [of hp] show ?thesis
      by (subst (asm) drop_stale.simps) (auto split: option.splits if_splits sum.splits prod.splits)
  qed
qed

lemma gap_skip_moves: "moves h (snd (gap_skip h))"
proof (cases "heap_top (drop_stale (expected_seq h) (ooo_heap h))")
  case None
  then show ?thesis by (simp add: gap_skip_def clean_heap r_into_rtranclp)
next
  case (Some k)
  let ?h2 = "h\<lparr>ooo_heap := drop_stale (expected_seq h) (ooo_heap h),
      stats := (stats h)\<lparr>gap_count := gap_count (stats h) + (k - expected_seq h)\<rparr>, expected_seq := k\<rparr>"
  have "move h ?h2" using drop_stale_top [OF Some] by (intro skip_gap) simp
  then have "moves h (snd (drain_ready ?h2))" by (rule converse_rtranclp_into_rtranclp) (rule drain_ready_moves)
  then show ?thesis
    using Some by (simp add: gap_skip_def Let_def moves_and_then grant_moves)
qed

lemma keep_alive_moves: "moves h (snd (keep_alive now v h))"
  by (simp add: keep_alive_def send_moves)

lemma stall_check_moves: "moves h (snd (stall_check now v h))"
  by (auto simp: stall_check_def keep_alive_moves gap_skip_moves intro: moves_and_then split: option.split)

lemma poll_iter_moves: "moves h (snd (poll_iter now v h))"
  by (auto simp: poll_iter_def Let_def advance_credit_moves stall_check_moves intro: moves_and_then)

lemma thread_step_moves: "moves h (snd (thread_step ev (t, h)))"
  by (cases ev) (auto simp: thread_step_def split_beta recv_datagram_moves poll_iter_moves split: option.split sum.split)

section \<open>Invariants of the threads and of commands\<close>

locale thread_invariant =
  fixes I :: "'a host \<Rightarrow> bool"
  assumes moved: "I h \<Longrightarrow> move h h' \<Longrightarrow> I h'"
begin

lemma kept: "moves h h' \<Longrightarrow> I h \<Longrightarrow> I h'"
  by (induction rule: rtranclp_induct) (auto intro: moved)

lemma and_then_keeps: "I (snd r) \<Longrightarrow> (\<And>x g. I g \<Longrightarrow> I (snd (k x g))) \<Longrightarrow> I (snd (and_then r k))"
  by (rule and_then_rel [of "\<lambda>_. I"]) auto

lemma thread_step_kept: "I h \<Longrightarrow> I (snd (thread_step ev (t, h)))"
  by (rule kept [OF thread_step_moves])

lemma run_threads_kept: "I h \<Longrightarrow> I (snd (run_threads evs (t, h)))"
proof (induction evs arbitrary: t h)
  case (Cons ev evs)
  have "run_threads (ev # evs) (t, h) = run_threads evs (fst (thread_step ev (t, h)), snd (thread_step ev (t, h)))"
    by (simp add: run_threads_def)
  with Cons.IH [OF thread_step_kept [OF Cons.prems, of ev t], of "fst (thread_step ev (t, h))"] show ?case by simp
qed (simp add: run_threads_def)

lemma recv_loop_kept: "I h \<Longrightarrow> I (snd (recv_loop rs h))"
proof (induction rs arbitrary: h)
  case (Cons r rs)
  show ?case
  proof (cases r)
    case (Datagram d)
    have "I (snd (recv_datagram d h))" by (rule kept [OF recv_datagram_moves Cons.prems])
    then show ?thesis using Cons Datagram by (auto split: prod.split sum.split)
  qed (use Cons.prems in simp)
qed simp

lemma wait_event_kept: "I h \<Longrightarrow> I (snd (wait_event c ds h))"
  by (simp add: wait_event_def Let_def recv_loop_kept split: option.split)

lemma forget_cmd_kept: "I h \<Longrightarrow> I (forget_cmd c h)"
  unfolding forget_cmd_def by (rule moved [OF _ respond])

end

locale client_invariant = thread_invariant +
  assumes issued: "I h \<Longrightarrow> I (h\<lparr>next_cmd_id := n, pending_cmds := pc, outbox := ob\<rparr>)"
begin

lemma issue_cmd_kept: "I h \<Longrightarrow> I (snd (issue_cmd op a1 a2 fl h))"
  using issued [where h = h and pc = "pending_cmds h" and ob = "outbox h"]
  by (auto simp: issue_cmd_def Let_def issued split: prod.split sum.split)

lemma cmd_attempts_kept: "I h \<Longrightarrow> I (snd (cmd_attempts op a1 a2 dss h))"
proof (induction dss arbitrary: h)
  case (Cons ds dss)
  have "I (snd (let h3 = forget_cmd c g in if ok then (Inr True, h3) else cmd_attempts op a1 a2 dss h3))" if "I g" for c ok g
    using that by (simp add: Let_def forget_cmd_kept Cons.IH)
  then show ?case
    unfolding cmd_attempts.simps
    by (intro and_then_keeps issue_cmd_kept wait_event_kept Cons.prems)
qed simp

lemma send_cmd_kept: "I h \<Longrightarrow> I (snd (send_cmd_wait_ack op a1 a2 n env h))"
  by (simp add: send_cmd_wait_ack_def cmd_attempts_kept)

end

subsection \<open>The start time\<close>

lemmas step_defs = track_highest_def count_packet_def store_future_def deliver_def Let_def

lemma send_credit_fields:
  "snd (send_credit c h) = h \<or> (\<exists>pkt. snd (send_credit c h) =
     h\<lparr>outbox := outbox h @ [pkt], stats := (stats h)\<lparr>credits_sent := credits_sent (stats h) + 1\<rparr>\<rparr>)"
  by (auto simp: send_credit_def split: sum.split)

text \<open>What no move touches.\<close>

lemma move_frame:
  "move h h' \<Longrightarrow> start_time (stats h') = start_time (stats h) \<and> next_cmd_id h' = next_cmd_id h \<and> window_size h' = window_size h"
proof (induction rule: move.induct)
  case (send c h)
  then show ?case using send_credit_fields [of c h] by auto
next
  case (grant c h)
  then show ?case using send_credit_fields [of c h] by auto
qed (auto simp: step_defs split: option.split)

interpretation start_kept: client_invariant "\<lambda>h. start_time (stats h) = t0"
  by unfold_locales (simp_all add: move_frame)

subsection \<open>The credit\<close>

lemma move_credit: "move h h' \<Longrightarrow> abs_credit h' = abs_credit h \<or> credit_fits (abs_credit h')"
proof (induction rule: move.induct)
  case (send c h)
  then show ?case using send_credit_fields [of c h] by auto
qed (auto simp: step_defs split: option.split)

interpretation credit_kept: client_invariant "\<lambda>h. credit_fits (abs_credit h)"
proof unfold_locales
  show "credit_fits (abs_credit h')" if "credit_fits (abs_credit h)" "move h h'" for h h' :: "'a host"
    using move_credit [OF that(2)] that(1) by auto
qed simp

subsection \<open>The command ids\<close>

interpretation ids_kept: thread_invariant "\<lambda>h. next_cmd_id h = n"
  by unfold_locales (simp add: move_frame)

text \<open>A command whose fields fit is not rejected while ids are left; every attempt uses one id.\<close>

lemma wait_event_no_error:
  "dict_get (pending_cmds h) c \<noteq> None \<Longrightarrow> \<exists>b. fst (wait_event c ds h) = Inr b"
  by (auto simp: wait_event_def Let_def)

lemma cmd_attempts_no_error:
  assumes "cmd_fits op a1 a2" and "0 \<le> next_cmd_id h" and "next_cmd_id h + int (length dss) \<le> 2 ^ 32"
  shows "\<exists>b h'. cmd_attempts op a1 a2 dss h = (Inr b, h')
    \<and> next_cmd_id h \<le> next_cmd_id h' \<and> next_cmd_id h' \<le> next_cmd_id h + int (length dss)"
  using assms(2,3)
proof (induction dss arbitrary: h)
  case (Cons ds dss)
  let ?i = "next_cmd_id h"
  have i: "0 \<le> ?i" "?i < 2 ^ 32" using Cons.prems by auto
  obtain h1 where iss: "issue_cmd op a1 a2 0 h = (Inr ?i, h1)" "next_cmd_id h1 = ?i + 1" "dict_get (pending_cmds h1) ?i \<noteq> None"
    by (rule issue_cmd_ok [OF assms(1) i, of 0]) (auto simp: AList.update_conv')
  obtain b where b: "fst (wait_event ?i ds h1) = Inr b" using wait_event_no_error [OF iss(3)] by blast
  define h3 where "h3 = forget_cmd ?i (snd (wait_event ?i ds h1))"
  have n: "next_cmd_id h3 = ?i + 1"
    unfolding h3_def by (intro ids_kept.forget_cmd_kept ids_kept.wait_event_kept iss(2))
  have w: "wait_event ?i ds h1 = (Inr b, snd (wait_event ?i ds h1))" using b by (metis prod.collapse)
  have "cmd_attempts op a1 a2 (ds # dss) h = (if b then (Inr True, h3) else cmd_attempts op a1 a2 dss h3)"
    unfolding cmd_attempts.simps iss(1) and_then_simps by (subst w) (simp add: h3_def Let_def)
  moreover have "\<exists>b h'. cmd_attempts op a1 a2 dss h3 = (Inr b, h') \<and> next_cmd_id h3 \<le> next_cmd_id h'
      \<and> next_cmd_id h' \<le> next_cmd_id h3 + int (length dss)"
    using Cons.prems n by (intro Cons.IH) auto
  ultimately show ?case using n by (cases b) auto
qed auto

subsection \<open>The types of the fields\<close>

text \<open>The counters are natural numbers and consistent with each other: what was processed or is
  buffered has been received, every packet counted has a header. The numbers are those of 32-bit
  fields, and a buffered packet is stored under its own number.\<close>

definition stats_typed :: "LudpStats \<Rightarrow> bool" where
  "stats_typed st \<longleftrightarrow> 0 \<le> packets_processed st \<and> packets_processed st \<le> packets_received st
     \<and> 0 \<le> packets_out_of_order st \<and> packets_out_of_order st \<le> packets_received st
     \<and> 0 \<le> packets_retransmitted st \<and> packets_retransmitted st \<le> packets_received st
     \<and> int LUDP_HDR_LEN * packets_received st \<le> bytes_received st \<and> nacks_sent st = 0 \<and> 0 \<le> credits_sent st
     \<and> packets_out_of_order st \<le> gap_count st"

definition buffer_typed :: "int \<Rightarrow> (int, LudpDataPacket) dict \<Rightarrow> bool" where
  "buffer_typed hi d \<longleftrightarrow> (\<forall>(k, p) \<in> set d. k = seq_num p \<and> 0 \<le> k \<and> k \<le> hi \<and> magic p = LUDP_MAGIC)"

definition host_typed :: "'a host \<Rightarrow> bool" where
  "host_typed h \<longleftrightarrow> stats_typed (stats h)
     \<and> packets_processed (stats h) + int (length (out_of_order h)) \<le> packets_received (stats h)
     \<and> -1 \<le> last_seq (stats h) \<and> last_seq (stats h) \<le> highest_seq h \<and> 0 \<le> highest_seq h \<and> highest_seq h < 2 ^ 32
     \<and> buffer_typed (highest_seq h) (out_of_order h)"

lemma host_typed_cong [simp]:
  "host_typed (h\<lparr>expected_seq := a\<rparr>) \<longleftrightarrow> host_typed h" "host_typed (h\<lparr>ooo_heap := b\<rparr>) \<longleftrightarrow> host_typed h"
  "host_typed (h\<lparr>pending_cmds := c\<rparr>) \<longleftrightarrow> host_typed h" "host_typed (h\<lparr>abs_credit := d\<rparr>) \<longleftrightarrow> host_typed h"
  "host_typed (h\<lparr>outbox := e\<rparr>) \<longleftrightarrow> host_typed h" "host_typed (h\<lparr>next_cmd_id := f\<rparr>) \<longleftrightarrow> host_typed h"
  "host_typed (h\<lparr>running := g\<rparr>) \<longleftrightarrow> host_typed h" "host_typed (h\<lparr>app := i\<rparr>) \<longleftrightarrow> host_typed h"
  by (simp_all add: host_typed_def)

lemma length_dict_set: "length (dict_set k v d) \<le> Suc (length d)"
  by (induction d) auto

lemma length_dict_del: "dict_get d k = Some v \<Longrightarrow> length (dict_del k d) < length d"
proof -
  assume "dict_get d k = Some v"
  then have "(k, v) \<in> set d" by (rule map_of_SomeD)
  then show ?thesis unfolding AList.delete_eq by (intro length_filter_less [of "(k, v)"]) auto
qed

lemma dict_set_subset: "set (dict_set k v d) \<subseteq> insert (k, v) (set d)"
  by (induction d) auto

lemma buffer_typed_set:
  assumes "buffer_typed hi d" and "seq_num p \<le> hi" and "0 \<le> seq_num p" and "magic p = LUDP_MAGIC"
  shows "buffer_typed hi (dict_set (seq_num p) p d)"
  using assms dict_set_subset [of "seq_num p" p d] unfolding buffer_typed_def by blast

lemma buffer_typed_del: "buffer_typed hi d \<Longrightarrow> buffer_typed hi (dict_del k d)"
  by (auto simp: buffer_typed_def AList.delete_eq)

lemma buffer_typed_mono: "buffer_typed hi d \<Longrightarrow> hi \<le> hi' \<Longrightarrow> buffer_typed hi' d"
  unfolding buffer_typed_def by fastforce

lemma data_of_magic: "data_of d = Some p \<Longrightarrow> magic p = LUDP_MAGIC"
  using parse_data_ok [of d] by (auto simp: data_of_def split: if_splits)

text \<open>A packet that has been counted leaves room for itself: it may be delivered or stored.\<close>

lemma counted_typed:
  assumes "host_typed h" and "data_of d = Some p"
  shows "host_typed (counted d p h)" and "seq_num p \<le> highest_seq (counted d p h)" and "out_of_order (counted d p h) = out_of_order h"
    and "packets_processed (stats (counted d p h)) + int (length (out_of_order h)) < packets_received (stats (counted d p h))"
    and "packets_out_of_order (stats (counted d p h)) < packets_received (stats (counted d p h))"
  using assms(1) data_of_Some(1,4,5) [OF assms(2)] buffer_typed_mono [of "highest_seq h" "out_of_order h" "seq_num p"]
  by (auto simp: host_typed_def stats_typed_def step_defs LUDP_HDR_LEN_def)

lemma deliver_typed:
  assumes "host_typed h" and "packets_processed (stats h) + int (length (out_of_order h)) < packets_received (stats h)"
  shows "host_typed (deliver p h)"
  using assms by (simp add: host_typed_def stats_typed_def deliver_def Let_def split: option.split)

lemma store_future_typed:
  assumes "host_typed h" and "packets_processed (stats h) + int (length (out_of_order h)) < packets_received (stats h)"
    and "packets_out_of_order (stats h) < packets_received (stats h)"
    and "seq_num p \<le> highest_seq h" and "0 \<le> seq_num p" and "magic p = LUDP_MAGIC"
  shows "host_typed (store_future p h)"
  using assms length_dict_set [of "seq_num p" p "out_of_order h"] buffer_typed_set [OF _ assms(4-6), of "out_of_order h"]
  by (auto simp: host_typed_def stats_typed_def store_future_def Let_def)

lemma drain_typed:
  assumes "host_typed h" and "dict_get (out_of_order h) k = Some p"
  shows "host_typed (deliver p (h\<lparr>ooo_heap := hp, out_of_order := dict_del k (out_of_order h)\<rparr>))"
proof (rule deliver_typed)
  note del = length_dict_del [OF assms(2)]
  show "host_typed (h\<lparr>ooo_heap := hp, out_of_order := dict_del k (out_of_order h)\<rparr>)"
    using assms(1) del by (auto simp: host_typed_def buffer_typed_del)
qed (use assms(1) length_dict_del [OF assms(2)] in \<open>auto simp: host_typed_def\<close>)

lemma send_credit_typed: "host_typed h \<Longrightarrow> host_typed (snd (send_credit c h))"
  using send_credit_fields [of c h] by (auto simp: host_typed_def stats_typed_def)

lemma move_typed: "move h h' \<Longrightarrow> host_typed h \<Longrightarrow> host_typed h'"
proof (induction rule: move.induct)
  case (arrive_next d p h e hp)
  note c = counted_typed [OF arrive_next(2,1)]
  show ?case using deliver_typed [OF c(1), of p] c(3,4) by simp
next
  case (arrive_future d p h)
  note c = counted_typed [OF arrive_future(2,1)]
  show ?case
    using store_future_typed [OF c(1) _ c(5,2)] c(3,4) data_of_Some(4) [OF arrive_future(1)] data_of_magic [OF arrive_future(1)] by simp
next
  case (skip_gap n h hp e)
  then show ?case by (simp add: host_typed_def stats_typed_def)
qed (simp_all add: counted_typed(1) drain_typed send_credit_typed)

interpretation typed: client_invariant host_typed
  by unfold_locales (simp_all add: move_typed)

lemma init_typed: "host_typed (init_host ip port window interval nack_ms poll_ms cmd_ms cb a0)"
  by (simp add: host_typed_def stats_typed_def init_host_def new_stats_def buffer_typed_def)

lemma start_typed: "host_typed h \<Longrightarrow> host_typed (start_host now h)"
  by (simp add: host_typed_def stats_typed_def start_host_def)

lemma reset_typed: "host_typed (reset_state h)"
  by (simp add: host_typed_def stats_typed_def reset_state_def new_stats_def buffer_typed_def)

text \<open>C16: The host stays well typed. From a fresh host, after any events of the two threads, a command
  with any answers, and any further events, exceptions in the threads included: all counters are
  natural numbers, no more packets have been processed or are buffered than were received, every
  packet counted brought at least a header, the numbers seen are unsigned 32-bit numbers and every
  buffered packet is a data packet stored under its own number.\<close>

theorem host_stays_typed:
  "host_typed (snd (run_threads evs' (t', snd (send_cmd_wait_ack op a1 a2 retries env
     (snd (run_threads evs (t, start_host now (init_host ip port window interval nack_ms poll_ms cmd_ms cb a0))))))))"
  by (intro typed.run_threads_kept typed.send_cmd_kept start_typed init_typed)

subsection \<open>The window\<close>

interpretation window_kept: client_invariant "\<lambda>h. window_size h = w"
  by unfold_locales (simp_all add: move_frame)

end
