(* ===== verification/Py_Text.thy ===== *)
theory Py_Text
  imports Prelude
begin

text \<open>
  The operations on text the repository uses, on ASCII: \<open>strip\<close>, \<open>lower\<close>, \<open>in\<close>,
  \<open>replace\<close>, the last part of a \<open>split\<close>, \<open>isdigit\<close>, \<open>int(text)\<close> and \<open>int(text, 0)\<close>.
\<close>

section \<open>Substrings and characters\<close>

definition is_space :: "char \<Rightarrow> bool" where
  "is_space c \<longleftrightarrow> (let n = of_char c :: nat in 9 \<le> n \<and> n \<le> 13 \<or> 28 \<le> n \<and> n \<le> 32)"

definition strip :: "string \<Rightarrow> string" where
  "strip s = rev (dropWhile is_space (rev (dropWhile is_space s)))"

definition lower_char :: "char \<Rightarrow> char" where
  "lower_char c = (let n = of_char c :: nat in if 65 \<le> n \<and> n \<le> 90 then char_of (n + 32) else c)"

text \<open>\<open>kw in text\<close>\<close>

fun contains :: "string \<Rightarrow> string \<Rightarrow> bool" where
  "contains kw [] \<longleftrightarrow> kw = []"
| "contains kw (c # cs) \<longleftrightarrow> take (length kw) (c # cs) = kw \<or> contains kw cs"

text \<open>\<open>text.replace(old, new)\<close> for a non-empty \<open>old\<close>: from left to right, without overlaps.\<close>

function replace :: "string \<Rightarrow> string \<Rightarrow> string \<Rightarrow> string" where
  "replace old new s =
     (if old = [] \<or> length s < length old then s
      else if take (length old) s = old then new @ replace old new (drop (length old) s)
      else hd s # replace old new (tl s))"
  by pat_completeness auto
termination
  by (relation "measure (\<lambda>(old, new, s). length s)") (auto simp: Suc_le_eq intro: diff_less)

declare replace.simps [simp del]

definition last_part :: "char \<Rightarrow> string \<Rightarrow> string" where
  \<comment> \<open>\<open>text.split(sep)[-1]\<close>\<close>
  "last_part sep s = rev (takeWhile (\<lambda>c. c \<noteq> sep) (rev s))"

definition ends_with :: "string \<Rightarrow> string \<Rightarrow> bool" where
  \<comment> \<open>\<open>text.endswith(suffix)\<close>\<close>
  "ends_with suffix s \<longleftrightarrow> take (length suffix) (rev s) = rev suffix"

lemma contains_iff: "contains kw s \<longleftrightarrow> (\<exists>a b. s = a @ kw @ b)"
proof (induction kw s rule: contains.induct)
  case (2 kw c cs)
  show ?case
  proof
    assume "contains kw (c # cs)"
    then consider "take (length kw) (c # cs) = kw" | "contains kw cs" by auto
    then show "\<exists>a b. c # cs = a @ kw @ b"
    proof cases
      case 1
      then have "c # cs = [] @ kw @ drop (length kw) (c # cs)"
        by (metis append_Nil append_take_drop_id)
      then show ?thesis by blast
    next
      case 2
      with \<open>contains kw cs \<longleftrightarrow> (\<exists>a b. cs = a @ kw @ b)\<close> obtain a b where "cs = a @ kw @ b" by blast
      then have "c # cs = (c # a) @ kw @ b" by simp
      then show ?thesis by blast
    qed
  next
    assume "\<exists>a b. c # cs = a @ kw @ b"
    then obtain a b where ab: "c # cs = a @ kw @ b" by blast
    show "contains kw (c # cs)"
    proof (cases a)
      case Nil
      with ab show ?thesis by (metis append_Nil append_eq_conv_conj contains.simps(2))
    next
      case (Cons x a')
      with ab 2 show ?thesis by auto
    qed
  qed
qed auto

section \<open>Numbers\<close>

text \<open>Digits of a base with single underscores between them; a flag says whether the text may end or
  have an underscore here.\<close>

definition digit_val :: "char \<Rightarrow> int option" where
  "digit_val c = (let n = of_char c :: int in
     if 48 \<le> n \<and> n \<le> 57 then Some (n - 48)
     else if 97 \<le> n \<and> n \<le> 102 then Some (n - 87)
     else if 65 \<le> n \<and> n \<le> 70 then Some (n - 55) else None)"

fun digits :: "int \<Rightarrow> bool \<Rightarrow> string \<Rightarrow> int \<Rightarrow> int option" where
  "digits base after_digit [] v = (if after_digit then Some v else None)"
| "digits base after_digit (c # cs) v =
     (if c = CHR ''_'' then (if after_digit then digits base False cs v else None)
      else case digit_val c of
          None \<Rightarrow> None
        | Some d \<Rightarrow> if d < base then digits base True cs (v * base + d) else None)"

definition prefixed_digits :: "int \<Rightarrow> string \<Rightarrow> int option" where
  "prefixed_digits base cs = (if cs = [] then None else digits base True cs 0)"

text \<open>An unsigned literal: a base prefix, or a decimal number with no leading zero unless it is 0.\<close>

definition nat_literal :: "string \<Rightarrow> int option" where
  "nat_literal s = (case s of
      CHR ''0'' # c # cs \<Rightarrow>
        if c \<in> {CHR ''x'', CHR ''X''} then prefixed_digits 16 cs
        else if c \<in> {CHR ''o'', CHR ''O''} then prefixed_digits 8 cs
        else if c \<in> {CHR ''b'', CHR ''B''} then prefixed_digits 2 cs
        else if digits 10 False s 0 = Some 0 then Some 0 else None
    | _ \<Rightarrow> digits 10 False s 0)"

definition signed :: "(string \<Rightarrow> int option) \<Rightarrow> string \<Rightarrow> int result" where
  "signed lit s =
     (let t = strip s;
          v = (if take 1 t = ''-'' then map_option uminus (lit (drop 1 t))
               else if take 1 t = ''+'' then lit (drop 1 t)
               else lit t)
      in case v of None \<Rightarrow> Inl ValueError | Some n \<Rightarrow> Inr n)"

definition py_int0 :: "string \<Rightarrow> int result" where
  \<comment> \<open>\<open>int(text, 0)\<close>\<close>
  "py_int0 s = signed nat_literal s"

definition py_int :: "string \<Rightarrow> int result" where
  \<comment> \<open>\<open>int(text)\<close>\<close>
  "py_int s = signed (\<lambda>cs. digits 10 False cs 0) s"

definition isdigit :: "string \<Rightarrow> bool" where
  "isdigit x \<longleftrightarrow> x \<noteq> [] \<and> list_all (\<lambda>c. 48 \<le> (of_char c :: nat) \<and> (of_char c :: nat) \<le> 57) x"

lemma digit_val_dec:
  assumes "48 \<le> (of_char c :: nat)" and "(of_char c :: nat) \<le> 57"
  shows "digit_val c = Some (of_char c - 48)" and "c \<noteq> CHR ''_''" and "(of_char c :: int) < 58"
proof -
  have "(of_char c :: int) = int (of_char c)" by (simp add: of_nat_of_char)
  with assms show "digit_val c = Some (of_char c - 48)" "(of_char c :: int) < 58"
    by (simp_all add: digit_val_def Let_def)
  show "c \<noteq> CHR ''_''" using assms by auto
qed

text \<open>A string that passes \<open>isdigit\<close> converts, and its value is the decimal one.\<close>

definition int_of_digits :: "string \<Rightarrow> int" where
  "int_of_digits x = fold (\<lambda>c v. v * 10 + (of_char c - 48)) x 0"

lemma digits_of_isdigit:
  "list_all (\<lambda>c. 48 \<le> (of_char c :: nat) \<and> (of_char c :: nat) \<le> 57) x
    \<Longrightarrow> digits 10 True x v = Some (fold (\<lambda>c v. v * 10 + (of_char c - 48)) x v)"
  by (induction x arbitrary: v) (simp_all add: digit_val_dec)

lemma strip_no_space: "list_all (\<lambda>c. \<not> is_space c) s \<Longrightarrow> strip s = s"
proof -
  assume s: "list_all (\<lambda>c. \<not> is_space c) s"
  have "dropWhile is_space xs = xs" if "list_all (\<lambda>c. \<not> is_space c) xs" for xs
    using that by (cases xs) simp_all
  from this [OF s] this [of "rev s"] s show "strip s = s"
    by (simp add: strip_def)
qed

lemma digits_isdigit:
  assumes "isdigit x"
  shows "digits 10 False x 0 = Some (int_of_digits x)"
proof -
  obtain c cs where x: "x = c # cs" and c: "48 \<le> (of_char c :: nat)" "(of_char c :: nat) \<le> 57"
    and cs: "list_all (\<lambda>c. 48 \<le> (of_char c :: nat) \<and> (of_char c :: nat) \<le> 57) cs"
    using assms by (cases x) (auto simp: isdigit_def)
  show ?thesis
    using c digits_of_isdigit [OF cs] by (simp add: x digit_val_dec int_of_digits_def)
qed

lemma isdigit_no_space: "isdigit x \<Longrightarrow> list_all (\<lambda>c. \<not> is_space c) x"
  by (auto simp: isdigit_def is_space_def list_all_iff Let_def)

lemma py_int_of_isdigit:
  assumes "isdigit x"
  shows "py_int x = Inr (int_of_digits x)"
proof -
  obtain c cs where x: "x = c # cs" and c: "48 \<le> (of_char c :: nat)"
    using assms by (cases x) (auto simp: isdigit_def)
  have "c \<noteq> CHR ''-''" "c \<noteq> CHR ''+''" using c by auto
  then show ?thesis
    using digits_isdigit [OF assms] strip_no_space [OF isdigit_no_space [OF assms]]
    by (simp add: py_int_def signed_def x del: digits.simps)
qed

section \<open>Printing\<close>

text \<open>\<open>str(n)\<close> for an integer, and \<open>sep.join(parts)\<close>.\<close>

fun decimal :: "nat \<Rightarrow> string" where
  "decimal n = (if n < 10 then [char_of (48 + n)] else decimal (n div 10) @ [char_of (48 + n mod 10)])"

declare decimal.simps [simp del]

definition py_str :: "int \<Rightarrow> string" where
  "py_str i = (if i < 0 then CHR ''-'' # decimal (nat (- i)) else decimal (nat i))"

fun join :: "string \<Rightarrow> string list \<Rightarrow> string" where
  "join sep [] = []"
| "join sep [x] = x"
| "join sep (x # y # xs) = x @ sep @ join sep (y # xs)"

lemma of_char_digit:
  assumes "d < 10"
  shows "(of_char (char_of (48 + d)) :: nat) = 48 + d" and "(of_char (char_of (48 + d)) :: int) = 48 + int d"
proof -
  show d: "(of_char (char_of (48 + d)) :: nat) = 48 + d" using assms by (simp add: of_char_of)
  then show "(of_char (char_of (48 + d)) :: int) = 48 + int d"
    by (metis of_nat_add of_nat_numeral of_nat_of_char)
qed

lemma decimal_digits: "isdigit (decimal n) \<and> int_of_digits (decimal n) = int n"
proof (induction n rule: decimal.induct)
  case (1 n)
  show ?case
  proof (cases "n < 10")
    case True
    then show ?thesis
      by (subst (1 2) decimal.simps) (simp add: isdigit_def int_of_digits_def of_char_digit)
  next
    case False
    with 1 have IH: "isdigit (decimal (n div 10))" "int_of_digits (decimal (n div 10)) = int (n div 10)" by auto
    have "n mod 10 < 10" by simp
    note d = of_char_digit [OF this]
    have "int n = int (n div 10) * 10 + int (n mod 10)"
      by (metis div_mult_mod_eq of_nat_add of_nat_mult of_nat_numeral)
    with IH False d show ?thesis
      by (subst (1 2) decimal.simps) (simp add: isdigit_def int_of_digits_def)
  qed
qed

text \<open>Printing an integer and reading it back.\<close>

lemma py_int_py_str: "py_int (py_str i) = Inr i"
proof (cases "i < 0")
  case True
  let ?x = "decimal (nat (- i))"
  have x: "isdigit ?x" "int_of_digits ?x = - i" using True decimal_digits [of "nat (- i)"] by simp_all
  have "\<not> is_space CHR ''-''" by (simp add: is_space_def)
  then have "strip (CHR ''-'' # ?x) = CHR ''-'' # ?x"
    using isdigit_no_space [OF x(1)] by (intro strip_no_space) simp
  with True x show ?thesis by (simp add: py_str_def py_int_def signed_def digits_isdigit)
qed (simp add: py_str_def py_int_of_isdigit decimal_digits)

end
