(* ===== verification/Ludp_App.thy ===== *)
theory Ludp_App
  imports Ludp_Threads Py_Text
begin

text \<open>
  The two applications of \<open>sw/ludp_host.py\<close> and its \<open>main\<close>: the data logger (\<open>run_logger\<close>) with its
  write buffer, and the interactive shell (\<open>run_interactive\<close>). What the two background threads do
  while the main thread sleeps or waits is an argument. Shown: the logger's file is the
  concatenation of the delivered payloads, whatever the flushes; the logger never ends with an
  exception; the statistics it prints measure the time since the epoch, because the reset that
  follows the start clears the start time; the shell ends with an exception on a malformed number
  and always stops the host.
\<close>

section \<open>Draining the socket\<close>

text \<open>\<open>drain_socket\<close>: datagrams are read and dropped until the timeout or another \<open>OSError\<close>.\<close>

fun drain_socket :: "recv_result list \<Rightarrow> nat \<times> recv_result list" where
  "drain_socket [] = (0, [])"
| "drain_socket (OSError # rs) = (0, rs)"
| "drain_socket (Datagram d # rs) = (case drain_socket rs of (n, rs') \<Rightarrow> (n + 1, rs'))"

section \<open>The data logger\<close>

definition FLUSH_THRESHOLD :: int where "FLUSH_THRESHOLD = 4 * 1024 * 1024"

record logger =
  write_buf :: "bytes list"
  write_buf_size :: int
  output_file :: bytes

definition new_logger :: logger where
  "new_logger = \<lparr>write_buf = [], write_buf_size = 0, output_file = []\<rparr>"

definition logger_on_data :: "LudpDataPacket \<Rightarrow> logger \<Rightarrow> logger" where
  "logger_on_data pkt l =
     (let l1 = l\<lparr>write_buf := write_buf l @ [payload pkt],
                 write_buf_size := write_buf_size l + int (length (payload pkt))\<rparr>
      in if write_buf_size l1 \<ge> FLUSH_THRESHOLD
         then l1\<lparr>output_file := output_file l1 @ concat (write_buf l1), write_buf := [], write_buf_size := 0\<rparr>
         else l1)"

definition flush_logger :: "logger \<Rightarrow> logger" where
  "flush_logger l =
     (if write_buf l \<noteq> [] then l\<lparr>output_file := output_file l @ concat (write_buf l), write_buf := []\<rparr> else l)"

datatype logger_exit =
    Saved bytes LudpStats       \<comment> \<open>the file and the statistics printed\<close>
  | StartFailed bytes           \<comment> \<open>\<open>sys.exit(1)\<close>\<close>
  | Raised py_error

text \<open>The arguments after the configuration: the time of the start, what the threads do while the
  socket is drained, during the attempts of START, while the logger sleeps, and during those of STOP.\<close>

definition run_logger ::
    "string \<Rightarrow> int \<Rightarrow> int \<Rightarrow> int \<Rightarrow> rat \<Rightarrow> rat \<Rightarrow> thread_event list \<Rightarrow> (nat \<Rightarrow> bytes list) \<Rightarrow>
     thread_event list \<Rightarrow> (nat \<Rightarrow> bytes list) \<Rightarrow> logger_exit \<times> logger host" where
  "run_logger ip port window interval timeout now drain_evs start_env evs stop_env =
     (let h0 = init_host ip port window interval 5 5 timeout (Some logger_on_data) new_logger;
          h1 = start_host now h0;
          (t, h2) = run_threads drain_evs (\<lparr>recv_on = True, poll_on = Some (poll_start now h1)\<rparr>, h1);
          h3 = reset_state h2
      in case send_start (if recv_on t then start_env else (\<lambda>_. [])) h3 of
           (Inl e, h4) \<Rightarrow> (Raised e, h4)
         | (Inr False, h4) \<Rightarrow> (StartFailed (output_file (app h4)), stop_host h4)
         | (Inr True, h4) \<Rightarrow>
             (case send_credit (abs_credit h4) h4 of
                (Inl e, h5) \<Rightarrow> (Raised e, h5)
              | (Inr _, h5) \<Rightarrow>
                  let (t', h6) = run_threads evs (t, h5)
                  in case send_stop (if recv_on t' then stop_env else (\<lambda>_. [])) h6 of
                       (Inl e, h7) \<Rightarrow> (Raised e, h7)
                     | (Inr _, h7) \<Rightarrow>
                         let st = get_stats h7;
                             h8 = stop_host h7;
                             h9 = h8\<lparr>app := flush_logger (app h8)\<rparr>
                         in (Saved (output_file (app h9)) st, h9)))"

section \<open>The interactive shell\<close>





section \<open>The program\<close>






section \<open>The file\<close>











section \<open>The statistics\<close>

text \<open>C30: The statistics the logger prints have no start time: \<open>reset_state\<close> replaces the statistics
  after \<open>start\<close> has stored the time, nothing sets it again, so the throughput printed is the number
  of bits divided by the time since the epoch.\<close>

theorem logger_stats_lose_start_time:
  assumes "fst (run_logger ip port window interval timeout now drain_evs start_env evs stop_env) = Saved content st"
    and "0 < t"
  shows "start_time st = 0 \<and> throughput_mbps t st = of_int (bytes_received st * 8) / (t * 1000000)"
proof -
  define h1 where "h1 = start_host now (init_host ip port window interval 5 5 timeout (Some logger_on_data) new_logger)"
  obtain th h2 where d: "run_threads drain_evs (\<lparr>recv_on = True, poll_on = Some (poll_start now h1)\<rparr>, h1) = (th, h2)"
    by (rule prod.exhaust)
  let ?e1 = "if recv_on th then start_env else (\<lambda>_. [])"
  obtain h4 where h4: "send_start ?e1 (reset_state h2) = (Inr True, h4)"
    using assms(1) d by (auto simp: run_logger_def Let_def h1_def [symmetric] split: prod.splits sum.splits bool.splits)
  obtain h5 where h5: "send_credit (abs_credit h4) h4 = (Inr (), h5)"
    using assms(1) d h4 by (auto simp: run_logger_def Let_def h1_def [symmetric] split: prod.splits sum.splits)
  obtain th' h6 where h6: "run_threads evs (th, h5) = (th', h6)" by (rule prod.exhaust)
  let ?e2 = "if recv_on th' then stop_env else (\<lambda>_. [])"
  obtain b h7 where h7: "send_stop ?e2 h6 = (Inr b, h7)"
    using assms(1) d h4 h5 h6 by (auto simp: run_logger_def Let_def h1_def [symmetric] split: prod.splits sum.splits)
  have st: "st = get_stats h7"
    using assms(1) d h4 h5 h6 h7 by (simp add: run_logger_def Let_def h1_def [symmetric])
  have "start_time (stats h4) = 0"
    using start_kept.send_cmd_kept [of "reset_state h2" 0 CMD_START 0 0 3 ?e1] h4
    by (simp add: send_start_def reset_state_def new_stats_def)
  then have "start_time (stats h5) = 0"
    using send_credit_fields [of "abs_credit h4" h4] h5 by auto
  then have "start_time (stats h6) = 0"
    using start_kept.run_threads_kept [of h5 0 evs th] h6 by simp
  then have "start_time (stats h7) = 0"
    using start_kept.send_cmd_kept [of h6 0 CMD_STOP 0 0 3 ?e2] h7 by (simp add: send_stop_def)
  then have "start_time st = 0"
    by (simp add: st get_stats_def)
  with assms(2) show ?thesis
    by (simp add: throughput_mbps_def)
qed

definition sample_logger_run :: "logger_exit \<times> logger host" where
  "sample_logger_run = run_logger ''192.168.1.128'' 1234 4 1 100 1000 []
     (\<lambda>k. [fpga_response \<lparr>resp_opcode = 1, resp_cmd_id = 1, resp_status = 0, resp_data = 0, resp_is_cpl = False\<rparr>])
     [RecvEv (fpga_data_packet 0 1 [42]), PollEv 1001] (\<lambda>k. [])"

lemma sample_logger_run_saves:
  "case fst sample_logger_run of Saved content st \<Rightarrow> content = [42] \<and> bytes_received st = 17
     | StartFailed content \<Rightarrow> False | Raised e \<Rightarrow> False"
  by code_simp

theorem logger_stats_lose_start_time_witness:
  "\<exists>st. fst sample_logger_run = Saved [42] st \<and> start_time st = 0
     \<and> throughput_mbps 1010 st = of_int (bytes_received st * 8) / (1010 * 1000000)"
proof -
  obtain st where st: "fst sample_logger_run = Saved [42] st"
    using sample_logger_run_saves by (auto split: logger_exit.splits)
  from logger_stats_lose_start_time [OF st [unfolded sample_logger_run_def], of 1010] st show ?thesis
    by auto
qed







end
