(* ===== verification/Ludp_Stream.thy ===== *)
theory Ludp_Stream
  imports Ludp_Threads
begin

text \<open>
  Host and FPGA over a network that loses nothing: a round is one packet of the FPGA, its handling by
  the receive thread, and the handling of the credits that the host sends. Shown: with a window of at
  least the credit interval the stream never blocks; with a smaller one it blocks at the end of the
  window, and the poll thread opens it again.
\<close>

section \<open>Rounds\<close>

definition new_datagrams :: "'a host \<Rightarrow> 'a host \<Rightarrow> bytes list" where
  "new_datagrams h h' = drop (length (outbox h)) (outbox h')"

definition stream_round :: "bytes \<Rightarrow> fpga \<times> 'a host \<Rightarrow> fpga \<times> 'a host" where
  "stream_round pl s = (case s of (f, h) \<Rightarrow>
     case fpga_send pl f of
       None \<Rightarrow> (f, h)
     | Some (d, f1) \<Rightarrow> let h1 = snd (recv_datagram d h) in (fold fpga_recv (new_datagrams h h1) f1, h1))"

text \<open>The FPGA after START and the first credit of the host.\<close>

definition fpga_started :: "int \<Rightarrow> fpga" where
  "fpga_started w = fpga_reset\<lparr>f2h_tx_enabled_reg := True, credit_limit_reg := word_of_int w\<rparr>"

section \<open>One round\<close>

lemma recv_next:
  assumes "data_of d = Some p" and "seq_num p = expected_seq h" and "ooo_heap h = []"
  shows "recv_datagram d h = credit_update ((deliver p (counted d p h))\<lparr>expected_seq := expected_seq h + 1, ooo_heap := []\<rparr>)"
proof -
  have "drop_stale e [] = []" for e by (simp add: drop_stale.simps heap_top_def)
  moreover have "drain_ready g = (Inr (), g)" if "ooo_heap g = []" for g :: "'a host"
    using that by (simp add: drain_ready.simps heap_top_def)
  ultimately show ?thesis
    using handle_data_cases(1) [OF data_of_Some(1,2) [OF assms(1)], of h] data_of_Some(3) [OF assms(1), of h] assms(2,3)
    by (simp add: handle_in_order_def Let_def)
qed

text \<open>Both sides agree on the next number and on the credit, and nothing is buffered.\<close>

definition in_step :: "int \<Rightarrow> int \<Rightarrow> fpga \<Rightarrow> LudpDataPacket list host \<Rightarrow> bool" where
  "in_step w i f h \<longleftrightarrow> f2h_tx_enabled_reg f \<and> seq_num_reg f = word_of_int (expected_seq h)
     \<and> credit_limit_reg f = word_of_int (abs_credit h) \<and> ooo_heap h = [] \<and> 0 \<le> expected_seq h
     \<and> window_size h = w \<and> credit_interval h = i \<and> on_data h = Some log_packet"

lemma advance_credit_exchange:
  assumes "0 \<le> abs_credit h" and "expected_seq h + window_size h < 2 ^ 31" and "abs_credit h < 2 ^ 31"
    and "credit_limit_reg f = word_of_int (abs_credit h)"
  defines "c \<equiv> expected_seq h + window_size h"
  defines "h' \<equiv> snd (advance_credit h)"
  shows "abs_credit h' = max c (abs_credit h)
    \<and> fold fpga_recv (new_datagrams h h') f = f\<lparr>credit_limit_reg := word_of_int (abs_credit h')\<rparr>"
proof (cases "abs_credit h < c")
  case True
  then have c: "0 \<le> c" "c < 2 ^ 32" "c < 2 ^ 31" using assms(1,2) by (auto simp: c_def)
  obtain pkt where pkt: "build_credit c = Inr pkt" using build_credit_ok [OF c(1,2)] by auto
  have h': "h' = h\<lparr>outbox := outbox h @ [pkt], stats := (stats h)\<lparr>credits_sent := credits_sent (stats h) + 1\<rparr>, abs_credit := c\<rparr>"
    using True pkt by (simp add: h'_def advance_credit_def send_credit_def c_def Let_def)
  have "uint (credit_limit_reg f) = abs_credit h"
    using assms(1,3,4) by (simp add: uint_word_of_int)
  with credit_takes_effect [OF pkt c(3), of f] True assms(3) show ?thesis
    by (simp add: h' new_datagrams_def max_def)
next
  case False
  then have "h' = h" by (simp add: h'_def advance_credit_def c_def Let_def)
  with False assms(4) show ?thesis by (simp add: new_datagrams_def)
qed

lemma stream_round_step:
  assumes s: "in_step w i f h" and room: "expected_seq h < abs_credit h" and "0 < i" and "0 \<le> w"
    and small: "expected_seq h + 1 + w < 2 ^ 31" "abs_credit h < 2 ^ 31"
  defines "c \<equiv> (if (expected_seq h + 1) mod i = 0 then max (expected_seq h + 1 + w) (abs_credit h) else abs_credit h)"
  shows "case stream_round pl (f, h) of (f', h') \<Rightarrow> in_step w i f' h' \<and> expected_seq h' = expected_seq h + 1 \<and> abs_credit h' = c
    \<and> (\<exists>p. app h' = app h @ [p] \<and> seq_num p = expected_seq h \<and> payload p = pl)"
proof -
  let ?k = "expected_seq h"
  note st = s [unfolded in_step_def]
  define d where "d = fpga_data_packet (word_of_int ?k) (word_of_nat (length pl)) pl"
  define f1 where "f1 = f\<lparr>seq_num_reg := word_of_int (?k + 1)\<rparr>"
  have k: "0 \<le> ?k" "?k < 2 ^ 31" using st small assms(4) by auto
  have send: "fpga_send pl f = Some (d, f1)"
    using st room k small sint_diff_small [of "abs_credit h" ?k]
    by (simp add: fpga_send_def f2h_tx_ok_def d_def f1_def)
  obtain p where p: "data_of d = Some p" "seq_num p = ?k" "payload p = pl"
    using k by (simp add: d_def data_of_fpga_data uint_word_of_int)
  define g where "g = (deliver p (counted d p h))\<lparr>expected_seq := ?k + 1, ooo_heap := []\<rparr>"
  have recv: "recv_datagram d h = credit_update g"
    using recv_next [OF p(1,2)] st by (simp add: g_def)
  have g: "outbox g = outbox h" "abs_credit g = abs_credit h" "expected_seq g = ?k + 1" "window_size g = w" "credit_interval g = i"
      "on_data g = Some log_packet" "ooo_heap g = []" "app g = app h @ [p]"
    using st by (simp_all add: g_def app_deliver log_packet_def)
  have frame: "credit_frame g (snd (credit_update g))" by (rule credit_update_frame)
  have x: "abs_credit (snd (credit_update g)) = c
      \<and> fold fpga_recv (new_datagrams g (snd (credit_update g))) f1 = f1\<lparr>credit_limit_reg := word_of_int c\<rparr>"
  proof (cases "(?k + 1) mod i = 0")
    case True
    with advance_credit_exchange [of g f1] st g room k small \<open>0 < i\<close> show ?thesis
      by (simp add: credit_update_def c_def f1_def)
  next
    case False
    with st g \<open>0 < i\<close> show ?thesis by (simp add: credit_update_def c_def new_datagrams_def f1_def)
  qed
  have "new_datagrams h (snd (credit_update g)) = new_datagrams g (snd (credit_update g))"
    using g(1) by (simp add: new_datagrams_def)
  then have "stream_round pl (f, h) = (f1\<lparr>credit_limit_reg := word_of_int c\<rparr>, snd (credit_update g))"
    using x by (simp add: stream_round_def send recv Let_def)
  with x st g p(2,3) frame k show ?thesis
    by (auto simp: in_step_def f1_def credit_frame_def)
qed

section \<open>Whole streams\<close>

definition numbered :: "int \<Rightarrow> bytes list \<Rightarrow> LudpDataPacket list \<Rightarrow> bool" where
  \<comment> \<open>the packets carry the payloads, numbered from \<open>k\<close>\<close>
  "numbered k pls ps \<longleftrightarrow> map payload ps = pls \<and> map seq_num ps = map (\<lambda>j. k + int j) [0..<length pls]"

lemma numbered_Cons: "seq_num p = k \<Longrightarrow> payload p = pl \<Longrightarrow> numbered (k + 1) pls ps \<Longrightarrow> numbered k (pl # pls) (p # ps)"
  by (simp add: numbered_def map_upt_Suc add.assoc del: upt_Suc)

text \<open>After \<open>k\<close> packets the credit is the window beyond the last multiple of the interval.\<close>

lemma credit_after:
  assumes "0 < i" and "0 \<le> (k :: int)"
  shows "(if (k + 1) mod i = 0 then max (k + 1 + w) (w + i * (k div i)) else w + i * (k div i)) = w + i * ((k + 1) div i)"
proof (cases "(k + 1) mod i = 0")
  case True
  then have "i * ((k + 1) div i) = k + 1" by (metis add.right_neutral mult_div_mod_eq)
  moreover have "i * (k div i) \<le> k" using assms by (metis mult_div_mod_eq add_le_cancel_left le_add_same_cancel1 pos_mod_sign)
  ultimately show ?thesis using True by simp
next
  case False
  have k: "k + 1 = i * (k div i) + (k mod i + 1)" by simp
  with False have "k mod i + 1 \<noteq> i" by (metis mod_mult_self4 mod_self)
  then have "k mod i + 1 < i" using pos_mod_bound [OF assms(1), of k] by linarith
  then have "(k + 1) div i = k div i" using int_div_pos_eq [OF k] assms by simp
  with False show ?thesis by simp
qed

text \<open>Any course \<open>C\<close> of the credit, by number of packets, that the credit update follows and that leaves room.\<close>

lemma stream_rounds:
  assumes "in_step w i f h" and "abs_credit h = C (expected_seq h)" and "expected_seq h + int (length pls) \<le> n"
    and "0 < i" and "0 \<le> w" and "n + w < 2 ^ 31"
    and C: "\<And>k. 0 \<le> k \<Longrightarrow> k < n \<Longrightarrow>
      k < C k \<and> C k < 2 ^ 31 \<and> (if (k + 1) mod i = 0 then max (k + 1 + w) (C k) else C k) = C (k + 1)"
  shows "case fold stream_round pls (f, h) of (f', h') \<Rightarrow> in_step w i f' h' \<and> expected_seq h' = expected_seq h + int (length pls)
    \<and> abs_credit h' = C (expected_seq h') \<and> (\<exists>ps. app h' = app h @ ps \<and> numbered (expected_seq h) pls ps)"
  using assms(1-3)
proof (induction pls arbitrary: f h)
  case Nil
  then show ?case by (simp add: numbered_def)
next
  case (Cons pl pls)
  let ?k = "expected_seq h"
  have k: "0 \<le> ?k" "?k < n" using Cons.prems(1,3) by (simp_all add: in_step_def)
  have room: "?k < abs_credit h" "?k + 1 + w < 2 ^ 31" "abs_credit h < 2 ^ 31"
    using C [OF k] Cons.prems(2) k(2) assms(6) by auto
  obtain f1 h1 where r: "stream_round pl (f, h) = (f1, h1)" by (rule prod.exhaust)
  note s = stream_round_step [OF Cons.prems(1) room(1) assms(4,5) room(2,3), of pl, unfolded r prod.case Cons.prems(2)]
  then obtain p where p: "app h1 = app h @ [p]" "seq_num p = ?k" "payload p = pl" by blast
  have s1: "in_step w i f1 h1" "expected_seq h1 = ?k + 1" "abs_credit h1 = C (expected_seq h1)" using s C [OF k] by simp_all
  obtain f2 h2 where f: "fold stream_round pls (f1, h1) = (f2, h2)" by (rule prod.exhaust)
  with Cons.IH [OF s1(1,3)] s1(2) Cons.prems(3) obtain ps where "in_step w i f2 h2" "expected_seq h2 = ?k + 1 + int (length pls)"
      "abs_credit h2 = C (expected_seq h2)" "app h2 = app h1 @ ps" "numbered (?k + 1) pls ps" by auto
  then show ?case using r f p numbered_Cons [OF p(2,3)] by auto
qed

lemma in_step_start: "in_step w i (fpga_started w) (logging_host w i) \<and> expected_seq (logging_host w i) = 0 \<and> abs_credit (logging_host w i) = w"
  by (simp add: in_step_def fpga_started_def fpga_reset_def logging_host_def start_host_def init_host_def)

text \<open>C14: Over a network that loses nothing the stream does not block. If the window is at least the
  credit interval, every packet the application of the FPGA offers is sent in its round, delivered in
  its round, unchanged and in order, and the credits of the receive thread alone keep the window
  open, for as long as the numbers stay in the half of the sequence space in which the FPGA
  compares them.\<close>

theorem lossless_stream:
  assumes "0 < interval" and "interval \<le> window" and "int (length pls) + window < 2 ^ 31"
  shows "\<exists>f h. fold stream_round pls (fpga_started window, logging_host window interval) = (f, h)
    \<and> map payload (app h) = pls \<and> map seq_num (app h) = map int [0..<length pls]
    \<and> seq_num_reg f = word_of_nat (length pls) \<and> expected_seq h = int (length pls) \<and> ooo_heap h = []"
proof -
  let ?C = "\<lambda>k. window + interval * (k div interval)" and ?n = "int (length pls)"
  obtain f h where f: "fold stream_round pls (fpga_started window, logging_host window interval) = (f, h)" by (rule prod.exhaust)
  have "k < ?C k \<and> ?C k < 2 ^ 31 \<and> (if (k + 1) mod interval = 0 then max (k + 1 + window) (?C k) else ?C k) = ?C (k + 1)"
    if "0 \<le> k" "k < ?n" for k
    using credit_after [OF assms(1) that(1)] that(2) assms(2,3) pos_mod_sign [OF assms(1), of k] pos_mod_bound [OF assms(1), of k]
      mult_div_mod_eq [of interval k] by (intro conjI) linarith+
  with stream_rounds [of window interval "fpga_started window" "logging_host window interval" ?C pls ?n]
    in_step_start [of window interval] assms f show ?thesis
    by (auto simp: in_step_def numbered_def)
qed

theorem lossless_stream_witness:
  "\<exists>f h. fold stream_round [[1], [], [2, 3]] (fpga_started 2, logging_host 2 2) = (f, h)
    \<and> map payload (app h) = [[1], [], [2, 3]] \<and> map seq_num (app h) = map int [0..<length [[1], [], [2, 3 :: byte]]]
    \<and> seq_num_reg f = word_of_nat (length [[1], [], [2, 3 :: byte]]) \<and> expected_seq h = int (length [[1], [], [2, 3 :: byte]]) \<and> ooo_heap h = []"
  by (rule lossless_stream) simp_all

text \<open>With a window smaller than the credit interval the receive thread never grants a credit: the
  stream blocks at the end of the first window, and it is the credit step of the poll thread that
  opens the next one.\<close>

theorem small_window_waits_for_poll:
  assumes "0 < window" and "window < interval" and "int (length pls) = window" and "2 * window < 2 ^ 31"
  shows "\<exists>f h. fold stream_round pls (fpga_started window, logging_host window interval) = (f, h) \<and> map payload (app h) = pls
    \<and> fpga_send pl f = None
    \<and> (\<exists>d f'. fpga_send pl (fold fpga_recv (new_datagrams h (snd (advance_credit h))) f) = Some (d, f'))"
proof -
  obtain f h where f: "fold stream_round pls (fpga_started window, logging_host window interval) = (f, h)" by (rule prod.exhaust)
  have "k < window \<and> window < 2 ^ 31 \<and> (if (k + 1) mod interval = 0 then max (k + 1 + window) window else window) = window"
    if "0 \<le> k" "k < window" for k
    using that assms(2,4) mod_pos_pos_trivial [of "k + 1" interval] by auto
  with stream_rounds [of window interval "fpga_started window" "logging_host window interval" "\<lambda>_. window" pls window]
    in_step_start [of window interval] assms f
  have s: "in_step window interval f h" "expected_seq h = window" "abs_credit h = window" "map payload (app h) = pls"
    by (auto simp: numbered_def logging_host_simps)
  have "fpga_send pl f = None" using s(1-3) by (simp add: in_step_def fpga_send_def f2h_tx_ok_def)
  moreover have "fpga_send pl (fold fpga_recv (new_datagrams h (snd (advance_credit h))) f) \<noteq> None"
    using s(1-3) assms(1,4) advance_credit_exchange [of h f] sint_diff_small [of "2 * window" window]
    by (simp add: in_step_def fpga_send_def f2h_tx_ok_def)
  ultimately show ?thesis using f s(4) by auto
qed

end
