(* ===== verification/Frames.thy ===== *)
theory Frames
  imports Ludp_Fpga
begin

text \<open>
  The raw Ethernet frames \<open>sw/ludp_host_dpi.py\<close> generates for co-simulation: ARP request, ICMP echo
  request, LUDP START and LUDP CREDIT, with the Internet checksum they share. Shown: the checksum
  loop computes the one's complement sum, so that every generated header verifies to 0; the sizes;
  when \<open>struct.error\<close> is raised; and that the LUDP frames carry exactly the packets the host
  class builds, which the FPGA obeys.
\<close>

section \<open>The Internet checksum\<close>

text \<open>\<open>for i in range(0, len(data), 2): checksum += (data[i] << 8) + data[i + 1]\<close>\<close>

fun sum_words :: "bytes \<Rightarrow> int \<Rightarrow> int result" where
  "sum_words (a # b # bs) acc = sum_words bs (acc + (push_bit 8 (uint a) + uint b))"
| "sum_words [a] acc = Inl IndexError"
| "sum_words [] acc = Inr acc"

text \<open>\<open>while checksum >> 16: checksum = (checksum & 0xFFFF) + (checksum >> 16)\<close>\<close>

lemma fold_carry_decreases:
  fixes c :: int
  assumes "drop_bit 16 c \<noteq> 0"
  defines "c' \<equiv> (c AND 0xFFFF) + drop_bit 16 c"
  shows "(if c' < 0 then nat (- c') + 65536 else nat c') < (if c < 0 then nat (- c) + 65536 else nat c)"
proof -
  have m: "c AND 0xFFFF = c mod 65536"
    using take_bit_eq_mask [of 16 c] take_bit_eq_mod [of 16 c] by (simp add: mask_eq_exp_minus_1)
  have d: "drop_bit 16 c = c div 65536" by (simp add: drop_bit_eq_div)
  obtain q r where qr: "q = c div 65536" "r = c mod 65536" by blast
  have "c = 65536 * q + r" "0 \<le> r" "r < 65536" "q \<noteq> 0"
    using assms(1) by (simp_all add: d qr)
  then show ?thesis
    unfolding c'_def m d qr [symmetric] by (simp split: if_splits) linarith
qed

function fold_carry :: "int \<Rightarrow> int" where
  "fold_carry c = (if drop_bit 16 c \<noteq> 0 then fold_carry ((c AND 0xFFFF) + drop_bit 16 c) else c)"
  by pat_completeness auto
termination
  by (relation "measure (\<lambda>c. if c < 0 then nat (- c) + 65536 else nat c)") (auto dest: fold_carry_decreases)

declare fold_carry.simps [simp del]

definition calculate_checksum :: "bytes \<Rightarrow> int result" where
  "calculate_checksum data =
     (let data' = (if length data mod 2 = 1 then data @ [0x00] else data)
      in bind_result (sum_words data' 0) (\<lambda>c. Inr (NOT (fold_carry c) AND 0xFFFF)))"


subsection \<open>Reference: the one's complement sum\<close>

lemma and_ffff: "(c::int) AND 0xFFFF = c mod 65536"
  using take_bit_eq_mask [of 16 c] take_bit_eq_mod [of 16 c] by (simp add: mask_eq_exp_minus_1)

definition ones_complement :: "int \<Rightarrow> int" where
  \<comment> \<open>the representative of \<open>s\<close> modulo \<open>2\<^sup>16 - 1\<close> between 1 and \<open>2\<^sup>16 - 1\<close>; 0 for 0 only\<close>
  "ones_complement s = (if s = 0 then 0 else (s - 1) mod 65535 + 1)"

lemma fold_carry_eq: "0 \<le> c \<Longrightarrow> fold_carry c = ones_complement c"
proof (induction c rule: fold_carry.induct)
  case (1 c)
  have d: "drop_bit 16 c = c div 65536" by (simp add: drop_bit_eq_div)
  show ?case
  proof (cases "drop_bit 16 c = 0")
    case True
    then have "c < 65536" using 1(2) by (auto simp: d zdiv_eq_0_iff)
    then have "ones_complement c = c" using 1(2) by (auto simp: ones_complement_def)
    with True show ?thesis by (simp add: fold_carry.simps)
  next
    case False
    let ?c = "c mod 65536 + c div 65536"
    have "0 < c div 65536" using False 1(2) pos_imp_zdiv_nonneg_iff [of 65536 c] by (simp add: d)
    moreover have "0 \<le> c mod 65536" by simp
    ultimately have pos: "0 < ?c" "c \<noteq> 0" by (linarith, auto)
    have "c - 1 = (?c - 1) + 65535 * (c div 65536)"
      using div_mult_mod_eq [of c 65536] by linarith
    then have "(c - 1) mod 65535 = (?c - 1) mod 65535"
      by (metis mod_mult_self2)
    then have "ones_complement c = ones_complement ?c"
      using pos by (simp add: ones_complement_def)
    moreover have "fold_carry c = fold_carry ?c"
      using False by (subst fold_carry.simps) (simp add: and_ffff d)
    moreover have "fold_carry ?c = ones_complement ?c"
      using 1(1) [OF False] pos by (simp add: and_ffff d)
    ultimately show ?thesis by simp
  qed
qed

text \<open>The sum of the big-endian 16-bit words of a byte string, an odd last byte padded with 0.\<close>

fun word_sum :: "bytes \<Rightarrow> int" where
  "word_sum (a # b # bs) = 256 * uint a + uint b + word_sum bs"
| "word_sum [a] = 256 * uint a"
| "word_sum [] = 0"

lemma word_sum_nonneg [simp]: "0 \<le> word_sum bs"
  by (induction bs rule: word_sum.induct) simp_all

lemma word_sum_pad: "word_sum (bs @ [0]) = word_sum bs"
  by (induction bs rule: word_sum.induct) simp_all

lemma word_sum_append: "even (length xs) \<Longrightarrow> word_sum (xs @ ys) = word_sum xs + word_sum ys"
  by (induction xs rule: word_sum.induct) simp_all

lemma sum_words_eq: "even (length bs) \<Longrightarrow> sum_words bs acc = Inr (acc + word_sum bs)"
  by (induction bs acc rule: sum_words.induct) (simp_all add: push_bit_eq_mult ac_simps)

lemma not_and_ffff: "NOT (c::int) AND 0xFFFF = (65535 - c) mod 65536"
proof -
  have "65535 - c = NOT c + 65536" by (simp add: not_int_def)
  then show ?thesis by (simp only: and_ffff mod_add_self2)
qed

lemma checksum_eq:
  "calculate_checksum data = Inr (65535 - ones_complement (word_sum data))"
proof -
  have b: "0 \<le> ones_complement (word_sum data) \<and> ones_complement (word_sum data) \<le> 65535"
    using pos_mod_bound [of 65535 "word_sum data - 1"] by (auto simp: ones_complement_def)
  have "even (length (if length data mod 2 = 1 then data @ [0x00] else data))"
    by (auto simp: even_iff_mod_2_eq_zero mod_Suc)
  then have "sum_words (if length data mod 2 = 1 then data @ [0x00] else data) 0 = Inr (word_sum data)"
    by (simp add: sum_words_eq word_sum_pad)
  with b show ?thesis
    by (simp add: calculate_checksum_def Let_def fold_carry_eq not_and_ffff)
qed

text \<open>C32: The checksum routine is total and computes the complement of the one's complement sum of
  the 16-bit words, whatever the length of the data (an odd last byte counts as a high byte).\<close>

theorem calculate_checksum_correct:
  "calculate_checksum data = Inr (65535 - ones_complement (word_sum data))"
  by (rule checksum_eq)

section \<open>Frames\<close>

text \<open>The pieces the generators share: addresses, and \<open>struct.pack(">H", v)\<close> and the like for
  constants.\<close>

definition HOST_MAC :: bytes where "HOST_MAC = [0x02, 0x00, 0x00, 0x00, 0x00, 0x01]"
definition FPGA_MAC :: bytes where "FPGA_MAC = [0x02, 0x00, 0x00, 0x00, 0x00, 0x00]"
definition BROADCAST :: bytes where "BROADCAST = [0xff, 0xff, 0xff, 0xff, 0xff, 0xff]"

definition pack_H :: "int \<Rightarrow> bytes result" where "pack_H v = struct_pack Big [FH] [v]"
definition pack_I :: "int \<Rightarrow> bytes result" where "pack_I v = struct_pack Big [FI] [v]"

text \<open>\<open>while len(frame) < 60: frame += b'\x00'\<close>\<close>

function pad60 :: "bytes \<Rightarrow> bytes" where
  "pad60 frame = (if length frame < 60 then pad60 (frame @ [0x00]) else frame)"
  by pat_completeness auto
termination by (relation "measure (\<lambda>f. 60 - length f)") auto

declare pad60.simps [simp del]

definition generate_arp_request :: "bytes result" where
  "generate_arp_request =
     bind_result (pack_H 0x0806) (\<lambda>eth_type.
     bind_result (pack_H 1) (\<lambda>hw_type.
     bind_result (pack_H 0x0800) (\<lambda>proto_type.
     bind_result (pack_H 1) (\<lambda>opcode.
     bind_result (pack_I 0xC0A801C7) (\<lambda>sender_ip.
     bind_result (pack_I 0xC0A80180) (\<lambda>target_ip.
       let arp_packet = hw_type @ proto_type @ [0x06] @ [0x04] @ opcode @ HOST_MAC @ sender_ip
                        @ [0x00, 0x00, 0x00, 0x00, 0x00, 0x00] @ target_ip
       in Inr (pad60 (BROADCAST @ HOST_MAC @ eth_type @ arp_packet))))))))"

text \<open>The IPv4 header with a given checksum field, and with the checksum computed over the header
  whose field is 0.\<close>

definition ip_header_with :: "int \<Rightarrow> int \<Rightarrow> int \<Rightarrow> int \<Rightarrow> bytes result" where
  "ip_header_with total_length ident proto checksum =
     bind_result (struct_pack Big [FB, FB, FH, FH, FH, FB, FB, FH]
                    [0x45, 0x00, total_length, ident, 0x4000, 64, proto, checksum]) (\<lambda>h.
     bind_result (pack_I 0xC0A801C7) (\<lambda>ip_src.
     bind_result (pack_I 0xC0A80180) (\<lambda>ip_dst. Inr (h @ ip_src @ ip_dst))))"

definition ip_header :: "int \<Rightarrow> int \<Rightarrow> int \<Rightarrow> bytes result" where
  "ip_header total_length ident proto =
     bind_result (ip_header_with total_length ident proto 0) (\<lambda>h0.
     bind_result (calculate_checksum h0) (\<lambda>checksum.
       ip_header_with total_length ident proto checksum))"

definition icmp_header_with :: "int \<Rightarrow> int \<Rightarrow> int \<Rightarrow> bytes result" where
  "icmp_header_with checksum ident sq = struct_pack Big [FB, FB, FH, FH, FH] [8, 0, checksum, ident, sq]"

definition icmp_payload :: "int \<Rightarrow> bytes" where
  \<comment> \<open>\<open>bytes([i & 0xFF for i in range(payload_size)])\<close>\<close>
  "icmp_payload payload_size = map (\<lambda>i. word_of_int (i AND 0xFF)) [0..payload_size - 1]"

definition generate_icmp_echo_request :: "int \<Rightarrow> int \<Rightarrow> int \<Rightarrow> bytes result" where
  "generate_icmp_echo_request identifier sequence payload_size =
     bind_result (pack_H 0x0800) (\<lambda>eth_type.
     bind_result (ip_header (20 + 8 + payload_size) 0x0000 1) (\<lambda>ip.
     bind_result (icmp_header_with 0 identifier sequence) (\<lambda>icmp0.
     bind_result (calculate_checksum (icmp0 @ icmp_payload payload_size)) (\<lambda>checksum.
     bind_result (icmp_header_with checksum identifier sequence) (\<lambda>icmp.
       Inr (FPGA_MAC @ HOST_MAC @ eth_type @ ip @ icmp @ icmp_payload payload_size))))))"

text \<open>Ethernet, IPv4 and UDP around an LUDP packet, as both LUDP generators build them.\<close>

definition udp_frame :: "int \<Rightarrow> bytes \<Rightarrow> bytes result" where
  "udp_frame ident ludp_pkt =
     bind_result (pack_H 0x0800) (\<lambda>eth_type.
     bind_result (struct_pack Big [FH, FH, FH, FH] [12345, LUDP_PORT, 8 + int (length ludp_pkt), 0]) (\<lambda>udp_header.
     bind_result (ip_header (20 + int (length udp_header) + int (length ludp_pkt)) ident 17) (\<lambda>ip.
       Inr (FPGA_MAC @ HOST_MAC @ eth_type @ ip @ udp_header @ ludp_pkt))))"

definition generate_ludp_start :: "bytes result" where
  "generate_ludp_start =
     bind_result (struct_pack Little header_fmt [LUDP_MAGIC, PKT_CMD, 0x00, 0x00000001, 0x0001, 0x00000000, 0x0000])
       (\<lambda>ludp_pkt. udp_frame 0x0001 ludp_pkt)"

definition generate_ludp_credit :: "int \<Rightarrow> bytes result" where
  "generate_ludp_credit credit_value =
     bind_result (struct_pack Little header_fmt [LUDP_MAGIC, PKT_CREDIT, 0x00, credit_value, 0x0000, 0x00000000, 0x0000])
       (\<lambda>ludp_pkt. udp_frame 0x0002 ludp_pkt)"

section \<open>Headers that verify\<close>

lemma word_sum_pack_H: "0 \<le> v \<Longrightarrow> v < 65536 \<Longrightarrow> word_sum (pack_int Big FH v) = v"
  by (simp add: pack_int_def numeral_2_eq_2 uint_word_of_int)

text \<open>Storing the checksum in a 16-bit field at an even offset that was 0 makes the data sum up
  to 0.\<close>

lemma checksum_verifies:
  assumes "even (length xs)" and "0 < word_sum xs + word_sum ys"
    and "calculate_checksum (xs @ pack_int Big FH 0 @ ys) = Inr c"
  shows "calculate_checksum (xs @ pack_int Big FH c @ ys) = Inr 0" and "0 \<le> c" and "c < 65536"
proof -
  let ?s = "word_sum xs + word_sum ys"
  have field: "word_sum (xs @ pack_int Big FH v @ ys) = ?s + v" if "0 \<le> v" "v < 65536" for v
    using assms(1) that by (simp add: word_sum_append word_sum_pack_H)
  have m: "0 \<le> (?s - 1) mod 65535" "(?s - 1) mod 65535 < 65535" by simp_all
  have c: "c = 65535 - ((?s - 1) mod 65535 + 1)"
    using assms(2,3) field [of 0] by (simp add: checksum_eq ones_complement_def)
  show r: "0 \<le> c" "c < 65536"
    using m unfolding c by linarith+
  have "(?s + c - 1) mod 65535 = (?s - 1 + c) mod 65535"
    by (simp add: algebra_simps)
  also have "\<dots> = ((?s - 1) mod 65535 + c) mod 65535"
    by (simp only: mod_add_left_eq)
  also have "\<dots> = 65534"
    unfolding c by simp
  finally have "ones_complement (?s + c) = 65535"
    using assms(2) r by (simp add: ones_complement_def)
  then show "calculate_checksum (xs @ pack_int Big FH c @ ys) = Inr 0"
    using field [OF r] by (simp add: checksum_eq)
qed

lemma ip_header_with_eq:
  assumes "0 \<le> t" "t < 65536" "0 \<le> i" "i < 65536" "0 \<le> p" "p < 256" "0 \<le> c" "c < 65536"
  shows "ip_header_with t i p c = Inr
    ((pack_int Big FB 0x45 @ pack_int Big FB 0 @ pack_int Big FH t @ pack_int Big FH i
      @ pack_int Big FH 0x4000 @ pack_int Big FB 64 @ pack_int Big FB p)
     @ pack_int Big FH c @ pack_int Big FI 0xC0A801C7 @ pack_int Big FI 0xC0A80180)"
  using assms by (simp add: ip_header_with_def pack_I_def in_range_simps)

lemma ip_header_with_error:
  assumes "\<not> (0 \<le> t \<and> t < 65536 \<and> 0 \<le> i \<and> i < 65536 \<and> 0 \<le> p \<and> p < 256)"
  shows "ip_header_with t i p c = Inl StructError"
proof -
  have "struct_pack Big [FB, FB, FH, FH, FH, FB, FB, FH] [0x45, 0, t, i, 0x4000, 64, p, c] = Inl StructError"
    using assms by (intro struct_pack_out_of_range) auto
  then show ?thesis by (simp add: ip_header_with_def)
qed

lemma ip_header_ok:
  assumes "0 \<le> t" "t < 65536" "0 \<le> i" "i < 65536" "0 \<le> p" "p < 256"
  obtains bs where "ip_header t i p = Inr bs" and "length bs = 20" and "calculate_checksum bs = Inr 0"
    and "unpack_int Big (py_slice 2 4 bs) = t" and "uint (bs ! 9) = p"
proof -
  let ?xs = "pack_int Big FB 0x45 @ pack_int Big FB 0 @ pack_int Big FH t @ pack_int Big FH i
      @ pack_int Big FH 0x4000 @ pack_int Big FB 64 @ pack_int Big FB p"
  let ?ys = "pack_int Big FI 0xC0A801C7 @ pack_int Big FI 0xC0A80180"
  note w = ip_header_with_eq [OF assms]
  obtain c where c: "calculate_checksum (?xs @ pack_int Big FH 0 @ ?ys) = Inr c"
    using checksum_eq by blast
  have "0 < word_sum ?xs + word_sum ?ys"
    by (simp add: pack_int_def add_nonneg_pos add_pos_nonneg)
  then have v: "calculate_checksum (?xs @ pack_int Big FH c @ ?ys) = Inr 0" "0 \<le> c" "c < 65536"
    using checksum_verifies [OF _ _ c] by simp_all
  define bs where "bs = ?xs @ pack_int Big FH c @ ?ys"
  have "ip_header t i p = Inr bs"
    using w [of 0] w [OF v(2,3)] c by (simp add: ip_header_def bs_def)
  moreover have "py_slice 2 4 bs = pack_int Big FH t"
    by (simp add: py_slice_def bs_def)
  then have "unpack_int Big (py_slice 2 4 bs) = t"
    using assms(1,2) by (simp only: unpack_int_pack_int in_range_simps)
  moreover have "bs ! 9 = word_of_int p"
    by (simp add: nth_append pack_int_def numeral_2_eq_2 bs_def)
  then have "uint (bs ! 9) = p"
    using assms(5,6) by (simp add: uint_word_of_int)
  moreover have "length bs = 20" by (simp add: bs_def)
  moreover have "calculate_checksum bs = Inr 0" using v(1) by (simp only: bs_def)
  ultimately show thesis
    by (intro that)
qed

lemma ip_header_error:
  "\<not> (0 \<le> t \<and> t < 65536 \<and> 0 \<le> i \<and> i < 65536 \<and> 0 \<le> p \<and> p < 256) \<Longrightarrow> ip_header t i p = Inl StructError"
  by (simp add: ip_header_def ip_header_with_error)

section \<open>The generated frames\<close>

text \<open>Where the parts of a frame are: Ethernet 0 to 14, IPv4 14 to 34, the rest from 34 on.\<close>

definition ip_part :: "bytes \<Rightarrow> bytes" where "ip_part frame = py_slice 14 34 frame"
definition ip_body :: "bytes \<Rightarrow> bytes" where "ip_body frame = drop 34 frame"

lemma pack_H_const [simp]: "pack_H 0x0800 = Inr [0x08, 0x00]" "pack_H 0x0806 = Inr [0x08, 0x06]" "pack_H 1 = Inr [0, 1]"
  by code_simp+

lemma frame_parts:
  fixes ip rest :: bytes
  assumes "length ip = 20"
  defines "frame \<equiv> FPGA_MAC @ HOST_MAC @ [0x08, 0x00] @ ip @ rest"
  shows "ip_part frame = ip" and "ip_body frame = rest" and "length frame = 34 + length rest"
    and "py_slice 12 14 frame = [0x08, 0x00]"
  using assms by (simp_all add: ip_part_def ip_body_def py_slice_def FPGA_MAC_def HOST_MAC_def)

lemma icmp_header_with_eq:
  assumes "0 \<le> c" "c < 65536" "0 \<le> i" "i < 65536" "0 \<le> q" "q < 65536"
  shows "icmp_header_with c i q = Inr ([0x08, 0x00] @ pack_int Big FH c @ pack_int Big FH i @ pack_int Big FH q)"
  using assms by (simp add: icmp_header_with_def in_range_simps) (simp add: pack_int_def)

lemma length_icmp_payload: "length (icmp_payload n) = nat n"
  by (simp add: icmp_payload_def)

text \<open>The ICMP echo request is a well-formed frame for every identifier, sequence number and
  payload size that fit their fields (odd sizes included): the IPv4 header checksum and the ICMP
  checksum both verify to 0, the IPv4 length field is the real length, and the frame has
  42 bytes and the payload. Otherwise \<open>struct.error\<close> is raised.\<close>

theorem icmp_echo_request_verifies:
  "if 0 \<le> ident \<and> ident < 2 ^ 16 \<and> 0 \<le> sq \<and> sq < 2 ^ 16 \<and> - 28 \<le> n \<and> n < 2 ^ 16 - 28
   then \<exists>frame. generate_icmp_echo_request ident sq n = Inr frame
      \<and> length frame = 42 + nat n
      \<and> calculate_checksum (ip_part frame) = Inr 0 \<and> calculate_checksum (ip_body frame) = Inr 0
      \<and> unpack_int Big (py_slice 2 4 (ip_part frame)) = 28 + n
      \<and> drop 8 (ip_body frame) = icmp_payload n
   else generate_icmp_echo_request ident sq n = Inl StructError"
proof (cases "- 28 \<le> n \<and> n < 2 ^ 16 - 28")
  case False
  then show ?thesis
    by (auto simp: generate_icmp_echo_request_def ip_header_error)
next
  case len: True
  obtain ip where ip: "ip_header (28 + n) 0 1 = Inr ip" "length ip = 20" "calculate_checksum ip = Inr 0"
      "unpack_int Big (py_slice 2 4 ip) = 28 + n"
    using len by (auto intro: ip_header_ok [of "28 + n" 0 1])
  show ?thesis
  proof (cases "0 \<le> ident \<and> ident < 2 ^ 16 \<and> 0 \<le> sq \<and> sq < 2 ^ 16")
    case False
    then have "icmp_header_with c ident sq = Inl StructError" for c
      unfolding icmp_header_with_def by (intro struct_pack_out_of_range) auto
    with False len ip(1) show ?thesis
      by (auto simp: generate_icmp_echo_request_def)
  next
    case True
    let ?ys = "pack_int Big FH ident @ pack_int Big FH sq @ icmp_payload n"
    have h: "icmp_header_with c ident sq = Inr ([0x08, 0x00] @ pack_int Big FH c @ pack_int Big FH ident @ pack_int Big FH sq)"
      if "0 \<le> c" "c < 65536" for c
      using True that by (intro icmp_header_with_eq) auto
    obtain c where c: "calculate_checksum ([0x08, 0x00] @ pack_int Big FH 0 @ ?ys) = Inr c"
      using checksum_eq by blast
    have "0 < word_sum [0x08, 0x00] + word_sum ?ys"
      by (simp add: add_pos_nonneg)
    then have v: "calculate_checksum ([0x08, 0x00] @ pack_int Big FH c @ ?ys) = Inr 0" "0 \<le> c" "c < 65536"
      using checksum_verifies [OF _ _ c] by simp_all
    define body where "body = [0x08, 0x00] @ pack_int Big FH c @ ?ys"
    have "generate_icmp_echo_request ident sq n = Inr (FPGA_MAC @ HOST_MAC @ [0x08, 0x00] @ ip @ body)"
      using ip(1) c h [of 0] h [OF v(2,3)] by (simp add: generate_icmp_echo_request_def body_def)
    moreover have "calculate_checksum body = Inr 0" using v(1) by (simp only: body_def)
    moreover have "length body = 8 + nat n" "drop 8 body = icmp_payload n"
      by (simp_all add: body_def length_icmp_payload)
    ultimately show ?thesis
      using True len ip frame_parts [OF ip(2), of body] by simp
  qed
qed

lemma udp_frame_ok:
  assumes "length pkt = 16" and "0 \<le> i" and "i < 65536"
  obtains frame where "udp_frame i pkt = Inr frame" and "length frame = 58" and "drop 42 frame = pkt"
    and "calculate_checksum (ip_part frame) = Inr 0" and "unpack_int Big (py_slice 2 4 (ip_part frame)) = 44"
    and "struct_unpack Big [FH, FH, FH, FH] (py_slice 34 42 frame) = Inr [12345, LUDP_PORT, 24, 0]"
proof -
  obtain udp where udp: "struct_pack Big [FH, FH, FH, FH] [12345, LUDP_PORT, 24, 0] = Inr udp"
    using struct_pack_Inr_iff [of Big "[FH, FH, FH, FH]" "[12345, LUDP_PORT, 24, 0]"] by (auto simp: ludp_consts)
  then have len: "length udp = 8" using length_struct_pack by fastforce
  obtain ip where ip: "ip_header 44 i 17 = Inr ip" "length ip = 20" "calculate_checksum ip = Inr 0"
      "unpack_int Big (py_slice 2 4 ip) = 44"
    using assms by (auto intro: ip_header_ok [of 44 i 17])
  let ?frame = "FPGA_MAC @ HOST_MAC @ [0x08, 0x00] @ ip @ udp @ pkt"
  have f: "udp_frame i pkt = Inr ?frame"
    using udp len ip(1) assms(1) by (simp add: udp_frame_def)
  have parts: "drop 42 ?frame = pkt" "py_slice 34 42 ?frame = udp"
    using ip(2) len by (simp_all add: FPGA_MAC_def HOST_MAC_def py_slice_def)
  show thesis
    using frame_parts [OF ip(2), of "udp @ pkt"] ip len assms(1) struct_unpack_pack [OF udp] parts
    by (intro that [OF f]) simp_all
qed

text \<open>The START frame carries, behind Ethernet, IPv4 (with a header checksum that verifies) and UDP
  headers with the right lengths and ports, exactly the START command the host class builds with id
  1; an idle FPGA that gets it starts transmitting.\<close>

theorem ludp_start_frame:
  "\<exists>frame pkt. generate_ludp_start = Inr frame \<and> build_cmd CMD_START 0 0 0 (Some 1) n = (Inr pkt, n)
     \<and> drop 42 frame = pkt \<and> length frame = 58
     \<and> calculate_checksum (ip_part frame) = Inr 0 \<and> unpack_int Big (py_slice 2 4 (ip_part frame)) = 44
     \<and> struct_unpack Big [FH, FH, FH, FH] (py_slice 34 42 frame) = Inr [12345, LUDP_PORT, 24, 0]
     \<and> f2h_tx_enabled_reg (fpga_recv pkt (f\<lparr>resp_reg := None\<rparr>))"
proof -
  have "list_all2 in_range header_fmt [LUDP_MAGIC, PKT_CMD, 0, 1, 1, 0, 0]"
    by (simp add: header_fmt_def ludp_consts)
  then obtain pkt where pkt: "struct_pack Little header_fmt [LUDP_MAGIC, PKT_CMD, 0, 1, 1, 0, 0] = Inr pkt"
    using struct_pack_Inr_iff by blast
  have "length pkt = 16" using length_struct_pack [OF pkt] by simp
  then obtain frame where "udp_frame 1 pkt = Inr frame" "length frame = 58" "drop 42 frame = pkt"
    "calculate_checksum (ip_part frame) = Inr 0" "unpack_int Big (py_slice 2 4 (ip_part frame)) = 44"
    "struct_unpack Big [FH, FH, FH, FH] (py_slice 34 42 frame) = Inr [12345, LUDP_PORT, 24, 0]"
    by (rule udp_frame_ok [of pkt 1]) simp_all
  moreover have "generate_ludp_start = udp_frame 1 pkt"
    using pkt by (simp add: generate_ludp_start_def)
  moreover have "build_cmd CMD_START 0 0 0 (Some 1) n = (Inr pkt, n)"
    using pkt by (simp add: build_cmd_def CMD_START_def)
  moreover have "f2h_tx_enabled_reg (fpga_recv pkt (f\<lparr>resp_reg := None\<rparr>))"
    using fpga_recv_header [OF pkt] by (simp add: Let_def CMD_START_def)
  ultimately show ?thesis by auto
qed

text \<open>The CREDIT frame exists exactly for credits of 32 bits (otherwise \<open>struct.error\<close>), is well
  formed and carries exactly the credit packet the host class builds.\<close>

theorem ludp_credit_frame:
  "if 0 \<le> c \<and> c < 2 ^ 32
   then \<exists>frame pkt. generate_ludp_credit c = Inr frame \<and> build_credit c = Inr pkt
     \<and> drop 42 frame = pkt \<and> length frame = 58
     \<and> calculate_checksum (ip_part frame) = Inr 0 \<and> unpack_int Big (py_slice 2 4 (ip_part frame)) = 44
     \<and> struct_unpack Big [FH, FH, FH, FH] (py_slice 34 42 frame) = Inr [12345, LUDP_PORT, 24, 0]
   else generate_ludp_credit c = Inl StructError"
proof (cases "0 \<le> c \<and> c < 2 ^ 32")
  case True
  then obtain pkt where pkt: "build_credit c = Inr pkt" "length pkt = 16"
    using build_credit_ok by blast
  then obtain frame where "udp_frame 2 pkt = Inr frame" "length frame = 58" "drop 42 frame = pkt"
    "calculate_checksum (ip_part frame) = Inr 0" "unpack_int Big (py_slice 2 4 (ip_part frame)) = 44"
    "struct_unpack Big [FH, FH, FH, FH] (py_slice 34 42 frame) = Inr [12345, LUDP_PORT, 24, 0]"
    by (elim udp_frame_ok [of pkt 2, rotated -1]) simp_all
  moreover have "generate_ludp_credit c = udp_frame 2 pkt"
    using pkt(1) by (simp add: generate_ludp_credit_def build_credit_def)
  ultimately show ?thesis
    using True pkt(1) by auto
next
  case False
  have "generate_ludp_credit c = Inl StructError"
    using build_credit_error [OF False] by (simp add: generate_ludp_credit_def build_credit_def)
  with False show ?thesis by simp
qed

text \<open>The ARP request is a minimum-size broadcast frame: 60 bytes, Ethernet type 0x0806, an
  Ethernet/IPv4 request from 192.168.1.199 for 192.168.1.128 and zero padding.\<close>

theorem arp_request_frame:
  "case generate_arp_request of Inl e \<Rightarrow> False | Inr frame \<Rightarrow> length frame = 60
     \<and> take 14 frame = BROADCAST @ HOST_MAC @ [0x08, 0x06]
     \<and> struct_unpack Big [FH, FH, FB, FB, FH] (py_slice 14 22 frame) = Inr [1, 0x0800, 6, 4, 1]
     \<and> py_slice 22 42 frame = HOST_MAC @ [192, 168, 1, 199] @ replicate 6 0 @ [192, 168, 1, 128]
     \<and> drop 42 frame = replicate 18 0"
  by code_simp

end
