(* ===== verification/Fifo_Link.thy ===== *)
theory Fifo_Link
  imports Frames
begin

text \<open>
  The file-based co-simulation link: \<open>sw/ludp_host_fifo.py\<close>, which has its own copies of the frame
  generators and writes batches of frames to a content, and the reader \<open>tb/dpi_fifo.c\<close> on the
  simulator's side. Shown: the copies generate the same frames as \<open>sw/ludp_host_dpi.py\<close>; the
  reader gets back exactly the packets written, once, as long as they fit its limits; a second batch
  that does not make the content longer is never seen.
\<close>

section \<open>The generators of the FIFO script\<close>

definition fifo_calculate_checksum :: "bytes \<Rightarrow> int result" where
  "fifo_calculate_checksum data =
     (let data = (if length data mod 2 = 1 then data @ [0x00] else data)
      in bind_result (sum_words data 0) (\<lambda>checksum. Inr (NOT (fold_carry checksum) AND 0xFFFF)))"

definition fifo_generate_arp_request :: "bytes result" where
  "fifo_generate_arp_request =
     (let eth_dst = [0xff, 0xff, 0xff, 0xff, 0xff, 0xff];
          eth_src = [0x02, 0x00, 0x00, 0x00, 0x00, 0x01];
          hw_len = [0x06]; proto_len = [0x04];
          target_mac = [0x00, 0x00, 0x00, 0x00, 0x00, 0x00]
      in bind_result (struct_pack Big [FH] [0x0806]) (\<lambda>eth_type.
         bind_result (struct_pack Big [FH] [1]) (\<lambda>hw_type.
         bind_result (struct_pack Big [FH] [0x0800]) (\<lambda>proto_type.
         bind_result (struct_pack Big [FH] [1]) (\<lambda>opcode.
         bind_result (struct_pack Big [FI] [0xC0A801C7]) (\<lambda>sender_ip.
         bind_result (struct_pack Big [FI] [0xC0A80180]) (\<lambda>target_ip.
           Inr (pad60 (eth_dst @ eth_src @ eth_type @ hw_type @ proto_type @ hw_len @ proto_len
                       @ opcode @ eth_src @ sender_ip @ target_mac @ target_ip)))))))))"

definition fifo_generate_icmp_echo_request :: "int \<Rightarrow> int \<Rightarrow> int \<Rightarrow> bytes result" where
  "fifo_generate_icmp_echo_request identifier sequence payload_size =
     (let eth_dst = [0x02, 0x00, 0x00, 0x00, 0x00, 0x00];
          eth_src = [0x02, 0x00, 0x00, 0x00, 0x00, 0x01];
          ip_fmt = [FB, FB, FH, FH, FH, FB, FB, FH];
          icmp_fmt = [FB, FB, FH, FH, FH];
          ip_total_length = 20 + 8 + payload_size;
          pl = map (\<lambda>i. word_of_int (i AND 0xFF)) [0..payload_size - 1]
      in bind_result (struct_pack Big [FH] [0x0800]) (\<lambda>eth_type.
         bind_result (struct_pack Big [FI] [0xC0A801C7]) (\<lambda>ip_src.
         bind_result (struct_pack Big [FI] [0xC0A80180]) (\<lambda>ip_dst.
         bind_result (struct_pack Big ip_fmt [0x45, 0x00, ip_total_length, 0x0000, 0x4000, 64, 1, 0]) (\<lambda>h0.
         bind_result (fifo_calculate_checksum (h0 @ ip_src @ ip_dst)) (\<lambda>ip_checksum.
         bind_result (struct_pack Big ip_fmt [0x45, 0x00, ip_total_length, 0x0000, 0x4000, 64, 1, ip_checksum]) (\<lambda>h1.
         bind_result (struct_pack Big icmp_fmt [8, 0, 0, identifier, sequence]) (\<lambda>icmp0.
         bind_result (fifo_calculate_checksum (icmp0 @ pl)) (\<lambda>icmp_checksum.
         bind_result (struct_pack Big icmp_fmt [8, 0, icmp_checksum, identifier, sequence]) (\<lambda>icmp1.
           Inr (eth_dst @ eth_src @ eth_type @ (h1 @ ip_src @ ip_dst) @ icmp1 @ pl)))))))))))"

text \<open>The two LUDP generators differ in the LUDP packet and the IPv4 identification only; the tail they
  share verbatim is \<open>fifo_udp_frame\<close>.\<close>

definition fifo_udp_frame :: "int \<Rightarrow> bytes \<Rightarrow> bytes result" where
  "fifo_udp_frame ip_id ludp_pkt =
     (let eth_dst = [0x02, 0x00, 0x00, 0x00, 0x00, 0x00];
          eth_src = [0x02, 0x00, 0x00, 0x00, 0x00, 0x01];
          ip_fmt = [FB, FB, FH, FH, FH, FB, FB, FH];
          udp_length = 8 + int (length ludp_pkt)
      in bind_result (struct_pack Big [FH] [0x0800]) (\<lambda>eth_type.
         bind_result (struct_pack Big [FH, FH, FH, FH] [12345, LUDP_PORT, udp_length, 0]) (\<lambda>udp_header.
         let ip_total_length = 20 + int (length udp_header) + int (length ludp_pkt)
         in bind_result (struct_pack Big [FI] [0xC0A801C7]) (\<lambda>ip_src.
            bind_result (struct_pack Big [FI] [0xC0A80180]) (\<lambda>ip_dst.
            bind_result (struct_pack Big ip_fmt [0x45, 0x00, ip_total_length, ip_id, 0x4000, 64, 17, 0]) (\<lambda>h0.
            bind_result (fifo_calculate_checksum (h0 @ ip_src @ ip_dst)) (\<lambda>ip_checksum.
            bind_result (struct_pack Big ip_fmt [0x45, 0x00, ip_total_length, ip_id, 0x4000, 64, 17, ip_checksum]) (\<lambda>h1.
              Inr (eth_dst @ eth_src @ eth_type @ (h1 @ ip_src @ ip_dst) @ udp_header @ ludp_pkt)))))))))"

definition fifo_generate_ludp_start :: "bytes result" where
  "fifo_generate_ludp_start =
     bind_result (struct_pack Little header_fmt [LUDP_MAGIC, PKT_CMD, 0x00, 0x00000001, 0x0001, 0x00000000, 0x0000])
       (\<lambda>ludp_pkt. fifo_udp_frame 0x0001 ludp_pkt)"

definition fifo_generate_ludp_credit :: "int \<Rightarrow> bytes result" where
  "fifo_generate_ludp_credit credit_value =
     bind_result (struct_pack Little header_fmt [LUDP_MAGIC, PKT_CREDIT, 0x00, credit_value, 0x0000, 0x00000000, 0x0000])
       (\<lambda>ludp_pkt. fifo_udp_frame 0x0002 ludp_pkt)"

lemma pack_I_const: "struct_pack Big [FI] [0xC0A801C7] = Inr [192, 168, 1, 199]" "struct_pack Big [FI] [0xC0A80180] = Inr [192, 168, 1, 128]"
  by code_simp+

lemma bind_assoc: "bind_result (bind_result r f) g = bind_result r (\<lambda>x. bind_result (f x) g)"
  by (cases r) simp_all

lemma fifo_checksum_eq: "fifo_calculate_checksum = calculate_checksum"
  by (simp add: fun_eq_iff fifo_calculate_checksum_def calculate_checksum_def Let_def)

lemmas frame_unfold = fifo_checksum_eq ip_header_def ip_header_with_def icmp_header_with_def icmp_payload_def
  pack_I_def pack_I_const pack_H_const [unfolded pack_H_def] Let_def bind_assoc FPGA_MAC_def HOST_MAC_def

lemma fifo_udp_frame_eq: "fifo_udp_frame i pkt = udp_frame i pkt"
  by (simp add: fifo_udp_frame_def udp_frame_def frame_unfold del: struct_pack.simps)

lemma fifo_generators_eq:
  "fifo_calculate_checksum = calculate_checksum \<and> fifo_generate_arp_request = generate_arp_request
   \<and> fifo_generate_icmp_echo_request = generate_icmp_echo_request
   \<and> fifo_generate_ludp_start = generate_ludp_start \<and> fifo_generate_ludp_credit = generate_ludp_credit"
proof -
  have "fifo_generate_icmp_echo_request i s n = generate_icmp_echo_request i s n" for i s n
    by (simp add: fifo_generate_icmp_echo_request_def generate_icmp_echo_request_def frame_unfold
        del: struct_pack.simps)
  moreover have "fifo_generate_arp_request = generate_arp_request"
    by code_simp
  ultimately show ?thesis
    by (simp add: fun_eq_iff fifo_checksum_eq fifo_generate_ludp_start_def generate_ludp_start_def
        fifo_generate_ludp_credit_def generate_ludp_credit_def fifo_udp_frame_eq)
qed

text \<open>The FIFO script's copies of the frame generators and of the checksum agree with those of the
  DPI script on every argument, errors included.\<close>

theorem fifo_generators_agree:
  "fifo_calculate_checksum = calculate_checksum \<and> fifo_generate_arp_request = generate_arp_request
   \<and> fifo_generate_icmp_echo_request = generate_icmp_echo_request
   \<and> fifo_generate_ludp_start = generate_ludp_start \<and> fifo_generate_ludp_credit = generate_ludp_credit"
  by (rule fifo_generators_eq)

section \<open>Writing the file\<close>

text \<open>The content of the file is the state: what was written before an exception stays.\<close>

fun write_each :: "bytes list \<Rightarrow> bytes \<Rightarrow> (unit, bytes) outcome" where
  "write_each [] f = (Inr (), f)"
| "write_each (pkt # pkts) f =
     and_then (lift_result (struct_pack Little [FI] [int (length pkt)]) f) (\<lambda>len f.
       write_each pkts (f @ len @ pkt))"

definition write_packets_to_file :: "bytes list \<Rightarrow> (unit, bytes) outcome" where
  "write_packets_to_file packets =
     and_then (lift_result (struct_pack Little [FI] [int (length packets)]) []) (\<lambda>count f.
       write_each packets (f @ count))"

definition fifo_main :: "string \<Rightarrow> int \<Rightarrow> bytes list result" where
  \<comment> \<open>the packets \<open>main\<close> collects for a packet type and a credit\<close>
  "fifo_main packet_type credit =
     (if packet_type = ''arp'' then bind_result fifo_generate_arp_request (\<lambda>a. Inr [a])
      else if packet_type = ''icmp''
      then bind_result (fifo_generate_icmp_echo_request 0x1234 0x0001 32) (\<lambda>a. Inr [a])
      else if packet_type = ''ludp_start'' then bind_result fifo_generate_ludp_start (\<lambda>a. Inr [a])
      else if packet_type = ''ludp_credit'' then bind_result (fifo_generate_ludp_credit credit) (\<lambda>a. Inr [a])
      else if packet_type = ''ludp_full''
      then bind_result fifo_generate_arp_request (\<lambda>a.
           bind_result fifo_generate_ludp_start (\<lambda>b.
           bind_result (fifo_generate_ludp_credit credit) (\<lambda>c. Inr [a, b, c])))
      else Inr [])"

section \<open>The reader\<close>

definition MAX_PACKET_SIZE :: int where "MAX_PACKET_SIZE = 9216"
definition MAX_PACKETS :: nat where "MAX_PACKETS = 256"

record fifo_reader =
  initialized :: bool
  file_pos :: nat
  packet_buffer :: "bytes list"   \<comment> \<open>the first \<open>packet_count\<close> entries\<close>
  packet_read_idx :: nat

definition fifo_init :: fifo_reader where
  "fifo_init = \<lparr>initialized = True, file_pos = 0, packet_buffer = [], packet_read_idx = 0\<rparr>"

text \<open>A C \<open>int\<close> read from four bytes (little-endian machine).\<close>

definition c_int :: "bytes \<Rightarrow> int" where
  "c_int bs = sint (word_of_int (le_value bs) :: 32 word)"

text \<open>The loop over the packets: a short \<open>fread\<close> leaves the position at the end of the content.\<close>

fun read_packets :: "nat \<Rightarrow> bytes \<Rightarrow> nat \<Rightarrow> bytes list \<Rightarrow> nat \<times> bytes list" where
  "read_packets 0 content pos pkts = (pos, pkts)"
| "read_packets (Suc n) content pos pkts =
     (if length content < pos + 4 then (length content, pkts)
      else let len = c_int (py_slice pos (pos + 4) content)
           in if len \<le> 0 \<or> len > MAX_PACKET_SIZE then (pos + 4, pkts)
              else if length pkts \<ge> MAX_PACKETS then (pos + 4, pkts)
              else if length content < pos + 4 + nat len then (length content, pkts)
              else read_packets n content (pos + 4 + nat len)
                     (pkts @ [py_slice (pos + 4) (pos + 4 + nat len) content]))"

definition dpi_fifo_poll :: "bytes option \<Rightarrow> fifo_reader \<Rightarrow> int \<times> fifo_reader" where
  "dpi_fifo_poll file_opt r =
     (if \<not> initialized r then (0, r)
      else case file_opt of
          None \<Rightarrow> (0, r)
        | Some content \<Rightarrow>
            if length content \<le> file_pos r then (0, r)
            else if length content < file_pos r + 4 then (0, r)
            else let count = c_int (py_slice (file_pos r) (file_pos r + 4) content);
                     (pos, pkts) = read_packets (nat count) content (file_pos r + 4) (packet_buffer r)
                 in (count, r\<lparr>file_pos := pos, packet_buffer := pkts\<rparr>))"

section \<open>Round trip\<close>

definition fits_reader :: "bytes \<Rightarrow> bool" where
  "fits_reader pkt \<longleftrightarrow> pkt \<noteq> [] \<and> int (length pkt) \<le> MAX_PACKET_SIZE"

definition prefixed :: "bytes \<Rightarrow> bytes" where
  "prefixed pkt = le_bytes 4 (int (length pkt)) @ pkt"

lemma pack_len: "int n < 2 ^ 32 \<Longrightarrow> struct_pack Little [FI] [int n] = Inr (le_bytes 4 (int n))"
  by (simp add: pack_int_def)

lemma write_each_eq:
  "\<forall>pkt \<in> set pkts. int (length pkt) < 2 ^ 32 \<Longrightarrow> write_each pkts f = (Inr (), f @ concat (map prefixed pkts))"
  by (induction pkts arbitrary: f) (simp_all add: pack_len prefixed_def del: struct_pack.simps)

lemma c_int_le_bytes: "0 \<le> v \<Longrightarrow> v < 2 ^ 31 \<Longrightarrow> c_int (le_bytes 4 v) = v"
proof -
  assume v: "0 \<le> v" "v < 2 ^ 31"
  then have "le_value (le_bytes 4 v) = v" by (intro le_value_le_bytes) simp_all
  then show ?thesis using sint_diff_small [of v 0] v by (simp add: c_int_def)
qed

lemma fits_reader_size: "fits_reader pkt \<Longrightarrow> 0 < length pkt \<and> length pkt \<le> 9216"
  by (simp add: fits_reader_def MAX_PACKET_SIZE_def)

lemma read_packets_written:
  assumes "\<forall>pkt \<in> set pkts. fits_reader pkt" and "length old + length pkts \<le> MAX_PACKETS"
  shows "read_packets (length pkts) (pre @ concat (map prefixed pkts) @ post) (length pre) old =
    (length pre + length (concat (map prefixed pkts)), old @ pkts)"
  using assms
proof (induction pkts arbitrary: pre old)
  case (Cons pkt pkts)
  let ?content = "pre @ concat (map prefixed (pkt # pkts)) @ post"
  have p: "0 < length pkt" "length pkt \<le> 9216"
    using Cons.prems(1) fits_reader_size [of pkt] by auto
  have hd: "c_int (py_slice (length pre) (length pre + 4) ?content) = int (length pkt)"
    using p by (simp add: prefixed_def py_slice_def c_int_le_bytes)
  have body: "py_slice (length pre + 4) (length pre + 4 + length pkt) ?content = pkt"
    by (simp add: prefixed_def py_slice_def)
  have "read_packets (length (pkt # pkts)) ?content (length pre) old =
      read_packets (length pkts) ((pre @ prefixed pkt) @ concat (map prefixed pkts) @ post)
        (length (pre @ prefixed pkt)) (old @ [pkt])"
    using p Cons.prems(2) hd body by (simp add: prefixed_def MAX_PACKET_SIZE_def add.assoc)
  also have "\<dots> = (length (pre @ prefixed pkt) + length (concat (map prefixed pkts)), (old @ [pkt]) @ pkts)"
    using Cons.prems by (intro Cons.IH) auto
  finally show ?case by simp
qed simp

lemma write_packets_eq:
  assumes "\<forall>pkt \<in> set pkts. fits_reader pkt" and "length pkts \<le> MAX_PACKETS"
  shows "write_packets_to_file pkts = (Inr (), le_bytes 4 (int (length pkts)) @ concat (map prefixed pkts))"
proof -
  have "\<forall>pkt \<in> set pkts. int (length pkt) < 2 ^ 32"
    using assms(1) fits_reader_size by force
  moreover have "int (length pkts) < 2 ^ 32" using assms(2) by (simp add: MAX_PACKETS_def)
  ultimately show ?thesis
    by (simp add: write_packets_to_file_def pack_len write_each_eq del: struct_pack.simps)
qed

lemma fifo_first_poll:
  assumes "\<forall>pkt \<in> set pkts. fits_reader pkt" and "length pkts \<le> MAX_PACKETS"
  obtains content r where "write_packets_to_file pkts = (Inr (), content)"
    and "dpi_fifo_poll (Some content) fifo_init = (int (length pkts), r)"
    and "packet_buffer r = pkts" and "file_pos r = length content"
proof -
  let ?n = "le_bytes 4 (int (length pkts))"
  let ?content = "?n @ concat (map prefixed pkts)"
  have "c_int (py_slice 0 4 ?content) = int (length pkts)"
    using assms(2) by (simp add: py_slice_def c_int_le_bytes MAX_PACKETS_def)
  moreover have "read_packets (length pkts) ?content 4 [] = (length ?content, pkts)"
    using read_packets_written [OF assms(1), of "[]" ?n "[]"] assms(2) by simp
  ultimately have p: "dpi_fifo_poll (Some ?content) fifo_init =
      (int (length pkts), fifo_init\<lparr>file_pos := length ?content, packet_buffer := pkts\<rparr>)"
    by (simp add: dpi_fifo_poll_def fifo_init_def)
  show thesis
    by (rule that [OF write_packets_eq [OF assms] p]) simp_all
qed

lemma fifo_poll_nothing_new: "length content \<le> file_pos r \<Longrightarrow> dpi_fifo_poll (Some content) r = (0, r)"
  by (simp add: dpi_fifo_poll_def)

text \<open>C33: The file format round-trips. Every batch of at most 256 non-empty packets of at most 9216
  bytes is written without error, and the first poll of the simulator's reader gets exactly these
  packets, in order, and consumes the whole file; the next poll finds nothing new.\<close>

theorem fifo_round_trip:
  assumes "\<forall>pkt \<in> set pkts. fits_reader pkt" and "length pkts \<le> MAX_PACKETS"
  shows "\<exists>content r. write_packets_to_file pkts = (Inr (), content)
     \<and> dpi_fifo_poll (Some content) fifo_init = (int (length pkts), r)
     \<and> packet_buffer r = pkts \<and> file_pos r = length content
     \<and> dpi_fifo_poll (Some content) r = (0, r)"
proof -
  obtain content r where f: "write_packets_to_file pkts = (Inr (), content)"
      "dpi_fifo_poll (Some content) fifo_init = (int (length pkts), r)"
      "packet_buffer r = pkts" "file_pos r = length content"
    by (rule fifo_first_poll [OF assms])
  with fifo_poll_nothing_new [of content r] show ?thesis by auto
qed

text \<open>C34: A second batch that does not make the file longer is lost: the script truncates the file and
  writes from the start, the reader continues at its old position.\<close>

theorem fifo_second_batch_lost:
  assumes "\<forall>pkt \<in> set pkts. fits_reader pkt" and "length pkts \<le> MAX_PACKETS"
    and "write_packets_to_file pkts = (Inr (), content)" and "write_packets_to_file pkts2 = (Inr (), file2)"
    and "length file2 \<le> length content"
  shows "dpi_fifo_poll (Some file2) (snd (dpi_fifo_poll (Some content) fifo_init)) =
    (0, snd (dpi_fifo_poll (Some content) fifo_init))"
proof -
  obtain f r where "write_packets_to_file pkts = (Inr (), f)"
      "dpi_fifo_poll (Some f) fifo_init = (int (length pkts), r)" "packet_buffer r = pkts" "file_pos r = length f"
    by (rule fifo_first_poll [OF assms(1,2)])
  with assms(3,5) show ?thesis
    by (simp add: fifo_poll_nothing_new)
qed

text \<open>The full sequence of the script is ARP, START, CREDIT, the frames of the DPI script; all three
  fit the reader, so one poll delivers them to the simulator in this order.\<close>

theorem fifo_full_sequence:
  assumes "0 \<le> credit" and "credit < 2 ^ 32"
  shows "\<exists>arp start cred content r. generate_arp_request = Inr arp \<and> generate_ludp_start = Inr start
     \<and> generate_ludp_credit credit = Inr cred \<and> fifo_main ''ludp_full'' credit = Inr [arp, start, cred]
     \<and> write_packets_to_file [arp, start, cred] = (Inr (), content)
     \<and> dpi_fifo_poll (Some content) fifo_init = (3, r) \<and> packet_buffer r = [arp, start, cred]"
proof -
  have "case generate_arp_request of Inl e \<Rightarrow> False | Inr f \<Rightarrow> length f = 60"
    by code_simp
  then obtain arp where arp: "generate_arp_request = Inr arp" "length arp = 60"
    by (auto split: sum.splits)
  have "case generate_ludp_start of Inl e \<Rightarrow> False | Inr f \<Rightarrow> length f = 58"
    by code_simp
  then obtain start where start: "generate_ludp_start = Inr start" "length start = 58"
    by (auto split: sum.splits)
  obtain pkt where pkt: "build_credit credit = Inr pkt" "length pkt = 16"
    using assms build_credit_ok by blast
  obtain cred where cred: "udp_frame 2 pkt = Inr cred" "length cred = 58"
    using pkt(2) by (auto intro: udp_frame_ok [of pkt 2])
  have c: "generate_ludp_credit credit = Inr cred"
    using pkt(1) cred(1) by (simp add: generate_ludp_credit_def build_credit_def)
  have fits: "\<forall>pkt \<in> set [arp, start, cred]. fits_reader pkt" "length [arp, start, cred] \<le> MAX_PACKETS"
    using arp(2) start(2) cred(2) by (auto simp: fits_reader_def MAX_PACKET_SIZE_def MAX_PACKETS_def)
  have "fifo_main ''ludp_full'' credit = Inr [arp, start, cred]"
    by (simp add: fifo_main_def fifo_generators_eq arp(1) start(1) c)
  moreover obtain content r where "write_packets_to_file [arp, start, cred] = (Inr (), content)"
      "dpi_fifo_poll (Some content) fifo_init = (int (length [arp, start, cred]), r)"
      "packet_buffer r = [arp, start, cred]" "file_pos r = length content"
    by (rule fifo_first_poll [OF fits])
  ultimately show ?thesis
    using arp(1) start(1) c by auto
qed

section \<open>Witnesses\<close>

theorem fifo_round_trip_witness:
  "\<exists>content r. write_packets_to_file [[1, 2], [3]] = (Inr (), content)
     \<and> dpi_fifo_poll (Some content) fifo_init = (int (length [[1, 2], [3 :: byte]]), r)
     \<and> packet_buffer r = [[1, 2], [3]] \<and> file_pos r = length content
     \<and> dpi_fifo_poll (Some content) r = (0, r)"
  by (rule fifo_round_trip) (simp_all add: fits_reader_def MAX_PACKET_SIZE_def MAX_PACKETS_def)

theorem fifo_second_batch_lost_witness:
  "dpi_fifo_poll (Some (snd (write_packets_to_file [[7]]))) (snd (dpi_fifo_poll (Some (snd (write_packets_to_file [[1, 2]]))) fifo_init)) =
    (0, snd (dpi_fifo_poll (Some (snd (write_packets_to_file [[1, 2]]))) fifo_init))"
proof (rule fifo_second_batch_lost [of "[[1, 2]]" _ "[[7]]"])
  show "write_packets_to_file [[1, 2]] = (Inr (), snd (write_packets_to_file [[1, 2]]))" by code_simp
  show "write_packets_to_file [[7]] = (Inr (), snd (write_packets_to_file [[7]]))" by code_simp
  show "length (snd (write_packets_to_file [[7]])) \<le> length (snd (write_packets_to_file [[1, 2]]))" by code_simp
qed (simp_all add: fits_reader_def MAX_PACKET_SIZE_def MAX_PACKETS_def)

theorem fifo_full_sequence_witness:
  "\<exists>arp start cred content r. generate_arp_request = Inr arp \<and> generate_ludp_start = Inr start
     \<and> generate_ludp_credit 64 = Inr cred \<and> fifo_main ''ludp_full'' 64 = Inr [arp, start, cred]
     \<and> write_packets_to_file [arp, start, cred] = (Inr (), content)
     \<and> dpi_fifo_poll (Some content) fifo_init = (3, r) \<and> packet_buffer r = [arp, start, cred]"
  by (rule fifo_full_sequence) simp_all

end
