(* ===== verification/Dpi_Link.thy ===== *)
theory Dpi_Link
  imports Fifo_Link
begin

text \<open>
  The socket-based co-simulation link: the class \<open>LudpHostDPI\<close> (\<open>sw/ludp_host_dpi.py\<close>), which
  frames packets with a 4-byte length on a stream socket, and the receiver \<open>tb/dpi_socket.c\<close> on
  the simulator's side. Shown: without a connection every send raises and sends nothing; what is
  sent is received, packet by packet; a packet of which only a part has arrived is lost; the script
  sends the frame asked for and closes the connection in every case.
\<close>

section \<open>The client\<close>

text \<open>The stream socket is the list of bytes written to it.\<close>

record dpi_host =
  dpi_window_size :: int
  dpi_abs_credit :: int
  dpi_next_cmd_id :: int
  dpi_sock :: "bytes option"
  connected :: bool
  sent_packets :: "bytes list"
  received_packets :: "bytes list"

definition dpi_init :: "int \<Rightarrow> dpi_host" where
  "dpi_init window = \<lparr>dpi_window_size = window, dpi_abs_credit = 0, dpi_next_cmd_id = 1, dpi_sock = None,
     connected = False, sent_packets = [], received_packets = []\<rparr>"

text \<open>\<open>connect_dpi\<close> over the attempts it makes before the timeout: whether each of them succeeds.\<close>

fun connect_dpi :: "bool list \<Rightarrow> dpi_host \<Rightarrow> bool \<times> dpi_host" where
  "connect_dpi [] s = (False, s)"
| "connect_dpi (ok # attempts) s =
     (if ok then (True, s\<lparr>dpi_sock := Some [], connected := True\<rparr>)
      else connect_dpi attempts (s\<lparr>dpi_sock := None\<rparr>))"

definition disconnect :: "dpi_host \<Rightarrow> dpi_host" where
  "disconnect s = s\<lparr>dpi_sock := None, connected := False\<rparr>"

definition send_packet :: "bytes \<Rightarrow> dpi_host \<Rightarrow> (bool, dpi_host) outcome" where
  "send_packet data s =
     (if \<not> connected s \<or> dpi_sock s = None then (Inl RuntimeError, s)
      else case struct_pack Little [FI] [int (length data)] of
          Inl e \<Rightarrow> (Inl e, s)
        | Inr header \<Rightarrow>
            (Inr True, s\<lparr>dpi_sock := map_option (\<lambda>w. w @ header @ data) (dpi_sock s),
                          sent_packets := sent_packets s @ [data]\<rparr>))"

definition dpi_send_cmd :: "int \<Rightarrow> int \<Rightarrow> int \<Rightarrow> int \<Rightarrow> dpi_host \<Rightarrow> (int, dpi_host) outcome" where
  "dpi_send_cmd opcode arg1 arg2 fl s =
     (let cmd_id = dpi_next_cmd_id s;
          s1 = s\<lparr>dpi_next_cmd_id := dpi_next_cmd_id s + 1\<rparr>
      in case build_cmd opcode arg1 arg2 fl (Some cmd_id) (dpi_next_cmd_id s1) of
           (Inl e, n) \<Rightarrow> (Inl e, s1\<lparr>dpi_next_cmd_id := n\<rparr>)
         | (Inr pkt, n) \<Rightarrow>
             and_then (send_packet pkt (s1\<lparr>dpi_next_cmd_id := n\<rparr>)) (\<lambda>_ s2. (Inr cmd_id, s2)))"

definition dpi_send_credit :: "int \<Rightarrow> dpi_host \<Rightarrow> (bool, dpi_host) outcome" where
  "dpi_send_credit credit s =
     and_then (lift_result (build_credit credit) s) (\<lambda>pkt s1.
     and_then (send_packet pkt s1) (\<lambda>_ s2. (Inr True, s2\<lparr>dpi_abs_credit := credit\<rparr>)))"

definition dpi_send_nack :: "int \<Rightarrow> int \<Rightarrow> dpi_host \<Rightarrow> (bool, dpi_host) outcome" where
  "dpi_send_nack miss_seq cnt s =
     and_then (lift_result (build_nack miss_seq cnt) s) (\<lambda>pkt s1.
     and_then (send_packet pkt s1) (\<lambda>_ s2. (Inr True, s2)))"

text \<open>Responses are captured by the testbench: \<open>receive_response\<close> has nothing to return.\<close>

definition receive_response :: "dpi_host \<Rightarrow> bytes option \<times> dpi_host" where
  "receive_response s = (None, s)"

text \<open>A test script is code loaded at run time. \<open>load\<close> gives what loading the file results in: an
  exception, or a module with or without a function \<open>run_test\<close>.\<close>

type_synonym test_module = "(dpi_host \<Rightarrow> (unit, dpi_host) outcome) option result"

definition run_test_script :: "(string \<Rightarrow> test_module) \<Rightarrow> string \<Rightarrow> dpi_host \<Rightarrow> (unit, dpi_host) outcome" where
  "run_test_script load script_path s =
     and_then (lift_result (load script_path) s) (\<lambda>run_test s1.
       case run_test of None \<Rightarrow> (Inr (), s1) | Some f \<Rightarrow> f s1)"

text \<open>\<open>main\<close> with the options \<open>--packet-type\<close> and \<open>--script\<close>: a frame is generated and sent, or the
  script run; the socket is closed whatever happens.\<close>

definition dpi_generate :: "string \<Rightarrow> bytes result option" where
  "dpi_generate packet_type =
     (if packet_type = ''arp'' then Some generate_arp_request
      else if packet_type = ''icmp'' then Some (generate_icmp_echo_request 0x1234 0x0001 32)
      else if packet_type = ''ludp_start'' then Some generate_ludp_start
      else if packet_type = ''ludp_credit'' then Some (generate_ludp_credit 64)
      else None)"

definition dpi_main :: "(string \<Rightarrow> test_module) \<Rightarrow> bool list \<Rightarrow> string option \<Rightarrow> string option \<Rightarrow> (int, dpi_host) outcome" where
  "dpi_main load attempts packet_type script =
     (case connect_dpi attempts (dpi_init 64) of
        (False, s) \<Rightarrow> (Inr 1, s)
      | (True, s) \<Rightarrow>
          let r = (case packet_type of
                     Some ty \<Rightarrow>
                       (case dpi_generate ty of
                          None \<Rightarrow> (Inr (), s)
                        | Some g \<Rightarrow> and_then (lift_result g s) (\<lambda>pkt s1. and_then (send_packet pkt s1) (\<lambda>_ s2. (Inr (), s2))))
                   | None \<Rightarrow>
                       (case script of None \<Rightarrow> (Inr (), s) | Some path \<Rightarrow> run_test_script load path s))
          in (case fst r of Inl e \<Rightarrow> Inl e | Inr _ \<Rightarrow> Inr 0, disconnect (snd r)))"

section \<open>The simulator's receiver\<close>

text \<open>The bytes that have arrived on the socket and have not been read, and the packets buffered.
  One call: \<open>MSG_PEEK\<close> the length, then read header and packet with a single \<open>recv\<close>, which takes
  whatever is there.\<close>

record sock_reader =
  stream :: bytes
  sock_packets :: "bytes list"

definition dpi_socket_receive :: "sock_reader \<Rightarrow> int \<times> sock_reader" where
  "dpi_socket_receive r =
     (if length (stream r) < 4 then (0, r)
      else let len = c_int (take 4 (stream r))
           in if len \<le> 0 \<or> len > MAX_PACKET_SIZE then (0, r\<lparr>stream := drop 4 (stream r)\<rparr>)
              else if length (sock_packets r) \<ge> MAX_PACKETS then (0, r)
              else let buf = take (4 + nat len) (stream r);
                       r1 = r\<lparr>stream := drop (4 + nat len) (stream r)\<rparr>
                   in if length buf < 4 + nat len then (0, r1)
                      else (1, r1\<lparr>sock_packets := sock_packets r @ [drop 4 buf]\<rparr>))"

fun receive_times :: "nat \<Rightarrow> sock_reader \<Rightarrow> sock_reader" where
  "receive_times 0 r = r"
| "receive_times (Suc n) r = receive_times n (snd (dpi_socket_receive r))"

fun send_all :: "bytes list \<Rightarrow> dpi_host \<Rightarrow> (bool, dpi_host) outcome" where
  "send_all [] s = (Inr True, s)"
| "send_all (p # ps) s = and_then (send_packet p s) (\<lambda>_ s1. send_all ps s1)"

section \<open>Properties\<close>

text \<open>Without a connection nothing is sent: every send raises \<open>RuntimeError\<close> when the values fit
  their fields (\<open>struct.error\<close> otherwise) and leaves the state alone, but for the command id, which
  is used up.\<close>

theorem dpi_send_disconnected:
  assumes "\<not> connected s \<or> dpi_sock s = None"
  shows "send_packet data s = (Inl RuntimeError, s)
    \<and> dpi_send_credit c s = (Inl (if 0 \<le> c \<and> c < 2 ^ 32 then RuntimeError else StructError), s)
    \<and> snd (dpi_send_cmd op a1 a2 fl s) = s\<lparr>dpi_next_cmd_id := dpi_next_cmd_id s + 1\<rparr>
    \<and> fst (dpi_send_cmd op a1 a2 fl s) \<in> {Inl RuntimeError, Inl StructError}
    \<and> snd (dpi_send_nack q n s) = s \<and> fst (dpi_send_nack q n s) \<in> {Inl RuntimeError, Inl StructError}"
proof -
  have p: "send_packet d t = (Inl RuntimeError, t)" if "\<not> connected t \<or> dpi_sock t = None" for d t
    using that by (auto simp: send_packet_def)
  have "dpi_send_credit c s = (Inl (if 0 \<le> c \<and> c < 2 ^ 32 then RuntimeError else StructError), s)"
    using build_credit_ok [of c] build_credit_error [of c] p [OF assms] by (auto simp: dpi_send_credit_def)
  moreover have "fst (dpi_send_nack q n s) \<in> {Inl RuntimeError, Inl StructError} \<and> snd (dpi_send_nack q n s) = s"
    using p [OF assms] by (cases "build_nack q n") (auto simp: dpi_send_nack_def build_nack_def dest: struct_pack_error)
  moreover have "snd (dpi_send_cmd op a1 a2 fl s) = s\<lparr>dpi_next_cmd_id := dpi_next_cmd_id s + 1\<rparr>
      \<and> fst (dpi_send_cmd op a1 a2 fl s) \<in> {Inl RuntimeError, Inl StructError}"
    using p [of "s\<lparr>dpi_next_cmd_id := dpi_next_cmd_id s + 1\<rparr>"] assms
    by (auto simp: dpi_send_cmd_def build_cmd_def Let_def split: sum.splits dest: struct_pack_error)
  ultimately show ?thesis
    using p [OF assms] by blast
qed

lemma send_packet_ok:
  assumes "connected s" and "dpi_sock s = Some w" and "fits_reader p"
  shows "send_packet p s = (Inr True, s\<lparr>dpi_sock := Some (w @ prefixed p), sent_packets := sent_packets s @ [p]\<rparr>)"
proof -
  have "int (length p) < 2 ^ 32" using fits_reader_size [OF assms(3)] by force
  then show ?thesis using assms(1,2) by (simp add: send_packet_def pack_len prefixed_def del: struct_pack.simps)
qed

lemma send_all_stream:
  assumes "connected s" and "dpi_sock s = Some w" and "\<forall>p \<in> set ps. fits_reader p"
  shows "\<exists>s'. send_all ps s = (Inr True, s') \<and> dpi_sock s' = Some (w @ concat (map prefixed ps))
    \<and> sent_packets s' = sent_packets s @ ps"
  using assms
proof (induction ps arbitrary: s w)
  case (Cons p ps)
  have "send_packet p s = (Inr True, s\<lparr>dpi_sock := Some (w @ prefixed p), sent_packets := sent_packets s @ [p]\<rparr>)"
    using Cons.prems by (simp add: send_packet_ok)
  with Cons.IH [of "s\<lparr>dpi_sock := Some (w @ prefixed p), sent_packets := sent_packets s @ [p]\<rparr>" "w @ prefixed p"]
  show ?case using Cons.prems by auto
qed simp

lemma receive_one:
  assumes "fits_reader p" and "length old < MAX_PACKETS"
  shows "dpi_socket_receive \<lparr>stream = prefixed p @ rest, sock_packets = old\<rparr> =
    (1, \<lparr>stream = rest, sock_packets = old @ [p]\<rparr>)"
  using fits_reader_size [OF assms(1)] assms(2)
  by (simp add: dpi_socket_receive_def prefixed_def c_int_le_bytes MAX_PACKET_SIZE_def Let_def)

lemma receive_sent:
  "\<forall>p \<in> set ps. fits_reader p \<Longrightarrow> length old + length ps \<le> MAX_PACKETS \<Longrightarrow>
   receive_times (length ps) \<lparr>stream = concat (map prefixed ps) @ rest, sock_packets = old\<rparr> =
     \<lparr>stream = rest, sock_packets = old @ ps\<rparr>"
  by (induction ps arbitrary: old) (simp_all add: receive_one)

text \<open>C35: What the client sends is what the simulator receives. Over a fresh connection, any sequence
  of at most 256 packets of 1 to 9216 bytes is sent without error, and as many receive calls on the
  stream give exactly these packets in order and leave the stream empty.\<close>

theorem dpi_stream_round_trip:
  assumes "\<forall>p \<in> set ps. fits_reader p" and "length ps \<le> MAX_PACKETS"
  shows "\<exists>s w. send_all ps (snd (connect_dpi [True] (dpi_init window))) = (Inr True, s)
     \<and> sent_packets s = ps \<and> dpi_sock s = Some w
     \<and> receive_times (length ps) \<lparr>stream = w, sock_packets = []\<rparr> = \<lparr>stream = [], sock_packets = ps\<rparr>"
  using send_all_stream [of "snd (connect_dpi [True] (dpi_init window))" "[]" ps] assms
    receive_sent [OF assms(1), of "[]" "[]"]
  by (auto simp: dpi_init_def)

text \<open>C36: The receiver is not incremental. If it is called when the length and only a part of a packet
  have arrived, it takes these bytes off the stream and drops them.\<close>

theorem dpi_partial_packet_lost:
  assumes "fits_reader p" and "k < length p" and "length old < MAX_PACKETS"
  shows "dpi_socket_receive \<lparr>stream = take (4 + k) (prefixed p), sock_packets = old\<rparr> =
    (0, \<lparr>stream = [], sock_packets = old\<rparr>)"
  using fits_reader_size [OF assms(1)] assms(2,3)
  by (simp add: dpi_socket_receive_def prefixed_def c_int_le_bytes MAX_PACKET_SIZE_def Let_def)

section \<open>The script\<close>

lemma connect_dpi_result:
  "connect_dpi attempts s = (if True \<in> set attempts then (True, s\<lparr>dpi_sock := Some [], connected := True\<rparr>)
     else (False, if attempts = [] then s else s\<lparr>dpi_sock := None\<rparr>))"
  by (induction attempts arbitrary: s) auto

text \<open>Every packet type of the command line has a frame.\<close>

lemma dpi_generate_ok:
  assumes "ty \<in> {''arp'', ''icmp'', ''ludp_start'', ''ludp_credit''}"
  shows "\<exists>frame. dpi_generate ty = Some (Inr frame) \<and> fits_reader frame"
proof -
  have "\<forall>ty \<in> {''arp'', ''icmp'', ''ludp_start'', ''ludp_credit''}.
      case dpi_generate ty of Some (Inr frame) \<Rightarrow> fits_reader frame | _ \<Rightarrow> False" by code_simp
  with assms show ?thesis by (auto split: option.splits sum.splits)
qed

text \<open>The script as a whole: it returns 1 without a connection; with one it sends exactly the frame
  asked for, once, and returns 0. A test script may do anything to the host and raise anything: the
  exception is passed on, and the connection is closed in every case.\<close>

theorem dpi_main_result:
  "\<not> connected (snd (dpi_main load attempts ty script)) \<and> dpi_sock (snd (dpi_main load attempts ty script)) = None
   \<and> (True \<notin> set attempts \<longrightarrow> fst (dpi_main load attempts ty script) = Inr 1 \<and> sent_packets (snd (dpi_main load attempts ty script)) = [])
   \<and> (True \<in> set attempts \<longrightarrow> ty \<in> Some ` {''arp'', ''icmp'', ''ludp_start'', ''ludp_credit''} \<longrightarrow>
        fst (dpi_main load attempts ty script) = Inr 0
        \<and> (\<exists>frame. dpi_generate (the ty) = Some (Inr frame) \<and> sent_packets (snd (dpi_main load attempts ty script)) = [frame]))"
proof (cases "True \<in> set attempts")
  case False
  then show ?thesis by (simp add: dpi_main_def connect_dpi_result dpi_init_def)
next
  case True
  define s where "s = (dpi_init 64)\<lparr>dpi_sock := Some [], connected := True\<rparr>"
  have s: "connected s" "dpi_sock s = Some []" "sent_packets s = []" by (simp_all add: s_def dpi_init_def)
  have conn: "connect_dpi attempts (dpi_init 64) = (True, s)" using True by (simp add: connect_dpi_result s_def)
  have sent: "fst (dpi_main load attempts (Some t) script) = Inr 0 \<and> sent_packets (snd (dpi_main load attempts (Some t) script)) = [frame]"
    if "dpi_generate t = Some (Inr frame)" "fits_reader frame" for t frame
    using send_packet_ok [OF s(1,2) that(2)] that(1) s(3) by (simp add: dpi_main_def conn disconnect_def)
  have "\<not> connected (snd (dpi_main load attempts ty script)) \<and> dpi_sock (snd (dpi_main load attempts ty script)) = None"
    by (simp add: dpi_main_def conn disconnect_def Let_def)
  moreover have "fst (dpi_main load attempts ty script) = Inr 0
      \<and> (\<exists>frame. dpi_generate (the ty) = Some (Inr frame) \<and> sent_packets (snd (dpi_main load attempts ty script)) = [frame])"
    if ty: "ty \<in> Some ` {''arp'', ''icmp'', ''ludp_start'', ''ludp_credit''}"
  proof -
    from ty obtain t where t: "ty = Some t" "t \<in> {''arp'', ''icmp'', ''ludp_start'', ''ludp_credit''}" by blast
    from dpi_generate_ok [OF t(2)] obtain frame where "dpi_generate t = Some (Inr frame)" "fits_reader frame" by blast
    with sent [OF this] t(1) show ?thesis by simp
  qed
  ultimately show ?thesis using True by blast
qed

section \<open>Witnesses\<close>

theorem dpi_send_disconnected_witness:
  "send_packet [1] (dpi_init 64) = (Inl RuntimeError, dpi_init 64)
    \<and> dpi_send_credit 5 (dpi_init 64) = (Inl (if 0 \<le> (5::int) \<and> (5::int) < 2 ^ 32 then RuntimeError else StructError), dpi_init 64)
    \<and> snd (dpi_send_cmd 1 0 0 0 (dpi_init 64)) = (dpi_init 64)\<lparr>dpi_next_cmd_id := dpi_next_cmd_id (dpi_init 64) + 1\<rparr>
    \<and> fst (dpi_send_cmd 1 0 0 0 (dpi_init 64)) \<in> {Inl RuntimeError, Inl StructError}
    \<and> snd (dpi_send_nack 3 1 (dpi_init 64)) = dpi_init 64
    \<and> fst (dpi_send_nack 3 1 (dpi_init 64)) \<in> {Inl RuntimeError, Inl StructError}"
  by (rule dpi_send_disconnected) (simp add: dpi_init_def)

theorem dpi_stream_round_trip_witness:
  "\<exists>s w. send_all [[1, 2], [3]] (snd (connect_dpi [True] (dpi_init 64))) = (Inr True, s)
     \<and> sent_packets s = [[1, 2], [3]] \<and> dpi_sock s = Some w
     \<and> receive_times (length [[1, 2], [3 :: byte]]) \<lparr>stream = w, sock_packets = []\<rparr> = \<lparr>stream = [], sock_packets = [[1, 2], [3]]\<rparr>"
  by (rule dpi_stream_round_trip) (simp_all add: fits_reader_def MAX_PACKET_SIZE_def MAX_PACKETS_def)

theorem dpi_partial_packet_lost_witness:
  "dpi_socket_receive \<lparr>stream = take (4 + 1) (prefixed [1, 2, 3]), sock_packets = []\<rparr> =
    (0, \<lparr>stream = [], sock_packets = []\<rparr>)"
  by (rule dpi_partial_packet_lost) (simp_all add: fits_reader_def MAX_PACKET_SIZE_def MAX_PACKETS_def)

end
