(* ===== verification/Coverage_Report.thy ===== *)
theory Coverage_Report
  imports Py_Text
begin

text \<open>
  The first half of the coverage report script (\<open>tb/coverage_report.py\<close>): the names of the source
  files (\<open>build_file_id_map\<close>) and the counts of a metric (\<open>parse_coverage\<close>), from the shape and data
  trees. The XML trees and the lines of the source files are data here: opening, decompressing and
  parsing files is the library's work, and \<open>Inl\<close> stands for a file where that fails. Shown: the
  names are exactly the files that contain one of the signatures, and the counts are consistent and
  conserve the entries.
\<close>

section \<open>XML trees\<close>

datatype xml = Elem (tag: string) (attrs: "(string, string) dict") (children: "xml list")

text \<open>\<open>root.iter(tag)\<close>: the elements with this tag, the root included, in document order.\<close>

fun iter :: "string \<Rightarrow> xml \<Rightarrow> xml list" where
  "iter t (Elem t' as cs) = (if t' = t then [Elem t' as cs] else []) @ concat (map (iter t) cs)"

definition get_attr :: "string \<Rightarrow> string \<Rightarrow> xml \<Rightarrow> string" where
  \<comment> \<open>\<open>elem.get(name, default)\<close>\<close>
  "get_attr name dflt e = (case dict_get (attrs e) name of None \<Rightarrow> dflt | Some v \<Rightarrow> v)"

section \<open>Entries by checksum\<close>

type_synonym entry = "string \<times> string"   \<comment> \<open>file id, line number\<close>

text \<open>\<open>d[k].append(x)\<close> on a \<open>defaultdict(list)\<close>.\<close>

definition append_entry :: "'k \<Rightarrow> 'x \<Rightarrow> ('k, 'x list) dict \<Rightarrow> ('k, 'x list) dict" where
  "append_entry k x d = dict_set k ((case dict_get d k of None \<Rightarrow> [] | Some xs \<Rightarrow> xs) @ [x]) d"

definition line_entries :: "xml \<Rightarrow> (string, entry list) dict" where
  "line_entries tree =
     fold (\<lambda>linedef d.
         fold (\<lambda>linebb d.
             if get_attr ''line_ignore'' ''0'' linebb \<noteq> ''1''
             then append_entry (get_attr ''chksum'' [] linedef)
                    (get_attr ''file_id'' [] linebb, get_attr ''line_num'' [] linebb) d
             else d)
           (iter ''linebb'' linedef) d)
       (iter ''linedef'' tree) []"

definition branch_entries :: "xml \<Rightarrow> (string, entry list) dict" where
  "branch_entries tree =
     fold (\<lambda>branch_def d.
         fold (\<lambda>expr d.
             let c = get_attr ''chksum'' [] branch_def; fid = get_attr ''file_id'' [] expr
             in append_entry c (fid, get_attr ''false_clause_line'' [] expr)
                  (append_entry c (fid, get_attr ''true_clause_line'' [] expr) d))
           (iter ''branch_expr'' branch_def) d)
       (iter ''branch_def'' tree) []"

definition cond_entries :: "xml \<Rightarrow> (string, entry list) dict" where
  "cond_entries tree =
     fold (\<lambda>conddef d.
         fold (\<lambda>condspec d.
             append_entry (get_attr ''chksum'' [] conddef)
               (get_attr ''file_id'' [] condspec, get_attr ''line_num'' [] condspec) d)
           (iter ''condspec'' conddef) d)
       (iter ''conddef'' tree) []"

definition shape_entries :: "string \<Rightarrow> xml \<Rightarrow> (string, entry list) dict" where
  "shape_entries metric tree =
     (if metric = ''line'' then line_entries tree
      else if metric = ''branch'' then branch_entries tree
      else if metric = ''cond'' then cond_entries tree
      else [])"

section \<open>The names of the files\<close>

text \<open>The signatures of a shape, by file id: line number and source text.\<close>

definition signatures :: "string \<Rightarrow> xml \<Rightarrow> (string, (string \<times> string) list) dict" where
  "signatures metric tree =
     (if metric = ''line'' then
        fold (\<lambda>e d. if get_attr ''line_ignore'' ''0'' e \<noteq> ''1''
                    then append_entry (get_attr ''file_id'' [] e)
                           (get_attr ''line_num'' [] e, get_attr ''bbsig'' [] e) d
                    else d) (iter ''linebb'' tree) []
      else if metric = ''branch'' then
        fold (\<lambda>e. append_entry (get_attr ''file_id'' [] e)
               (get_attr ''true_clause_line'' (get_attr ''false_clause_line'' [] e) e,
                get_attr ''exprstr'' [] e)) (iter ''branch_expr'' tree) []
      else if metric = ''cond'' then
        fold (\<lambda>e. append_entry (get_attr ''file_id'' [] e)
               (get_attr ''line_num'' [] e, get_attr ''sig'' [] e)) (iter ''condspec'' tree) []
      else [])"

text \<open>The source files: what \<open>os.walk\<close> yields for a directory (each directory below it with its
  files; nothing where there is no directory), and the lines of a file, \<open>None\<close> where it cannot be read.\<close>

record source_tree =
  walk :: "string \<Rightarrow> (string \<times> string list) list"
  read_lines :: "string \<Rightarrow> string list option"

type_synonym src_content = "(string, string list) dict"

definition path_join :: "string \<Rightarrow> string \<Rightarrow> string" where
  \<comment> \<open>\<open>os.path.join(a, b)\<close>\<close>
  "path_join a b =
     (if take 1 b = ''/'' then b
      else if a = [] \<or> last a = CHR ''/'' then a @ b
      else a @ ''/'' @ b)"

definition find_sources :: "source_tree \<Rightarrow> string list" where
  "find_sources fs =
     concat (map (\<lambda>rtl_dir. concat (map (\<lambda>(root_dir, files).
         map (path_join root_dir)
           (filter (\<lambda>f. list_ex (\<lambda>suffix. ends_with suffix f) [''.v'', ''.sv'', ''.svh'', ''.vh'']) files))
       (walk fs rtl_dir))) [''../rtl'', ''../tb'', ''../lib''])"

definition load_sources :: "source_tree \<Rightarrow> src_content" where
  "load_sources fs =
     fold (\<lambda>sf d. case read_lines fs sf of None \<Rightarrow> d | Some lines \<Rightarrow> dict_set sf lines d) (find_sources fs) []"

definition short_name :: "string \<Rightarrow> string" where
  "short_name sf = last_part CHR ''/'' (replace [CHR 0x5C] ''/'' (replace ''../'' [] sf))"

definition sig_at :: "string list \<Rightarrow> int \<Rightarrow> string \<Rightarrow> bool" where
  \<comment> \<open>the line numbered \<open>l\<close> exists and contains the signature\<close>
  "sig_at lines l sig \<longleftrightarrow>
     0 < l \<and> l \<le> int (length lines) \<and> strip sig \<noteq> [] \<and> contains (strip sig) (strip (lines ! nat (l - 1)))"

fun find_source :: "src_content \<Rightarrow> int \<Rightarrow> string \<Rightarrow> string option" where
  "find_source [] l sig = None"
| "find_source ((sf, lines) # src) l sig =
     (if sig_at lines l sig then Some (short_name sf) else find_source src l sig)"

fun find_name :: "src_content \<Rightarrow> (string \<times> string) list \<Rightarrow> string option" where
  "find_name src [] = None"
| "find_name src ((lnum, sig) # entries) =
     (case py_int lnum of
        Inl _ \<Rightarrow> find_name src entries
      | Inr l \<Rightarrow> case find_source src l sig of
            Some name \<Rightarrow> Some name
          | None \<Rightarrow> find_name src entries)"

definition name_file :: "src_content \<Rightarrow> string \<times> (string \<times> string) list \<Rightarrow> (string, string) dict \<Rightarrow> (string, string) dict" where
  "name_file src = (\<lambda>(fid, entries) names. case find_name src (take 5 entries) of
       None \<Rightarrow> names
     | Some name \<Rightarrow> dict_set fid name names)"

definition build_file_id_map :: "source_tree \<Rightarrow> string \<Rightarrow> xml result \<Rightarrow> (string, string) dict result" where
  \<comment> \<open>no handler: an error on the shape file is raised\<close>
  "build_file_id_map fs metric shape = (case shape of
       Inl e \<Rightarrow> Inl e
     | Inr tree \<Rightarrow> Inr (fold (name_file (load_sources fs)) (signatures metric tree) []))"

section \<open>Counting\<close>

record cov =
  total :: nat
  covered :: nat
  uncovered :: "string list"   \<comment> \<open>the key \<open>lines\<close>\<close>

type_synonym cov_stats = "(string, cov) dict"

definition cov_of :: "cov_stats \<Rightarrow> string \<Rightarrow> cov" where
  "cov_of stats f = (case dict_get stats f of None \<Rightarrow> \<lparr>total = 0, covered = 0, uncovered = []\<rparr> | Some s \<Rightarrow> s)"

text \<open>One entry of an instance, with its bit set or not.\<close>

definition count_entry :: "(string, string) dict \<Rightarrow> entry \<Rightarrow> bool \<Rightarrow> cov_stats \<Rightarrow> cov_stats" where
  "count_entry file_map e hit stats =
     (let fid = fst e; lnum = snd e;
          fname = (case dict_get file_map fid of None \<Rightarrow> ''unknown_'' @ fid | Some n \<Rightarrow> n);
          s = cov_of stats fname;
          s1 = s\<lparr>total := total s + 1\<rparr>
      in dict_set fname (if hit then s1\<lparr>covered := covered s1 + 1\<rparr>
                         else s1\<lparr>uncovered := uncovered s1 @ [lnum]\<rparr>) stats)"

fun count_entries :: "(string, string) dict \<Rightarrow> string \<Rightarrow> nat \<Rightarrow> entry list \<Rightarrow> cov_stats \<Rightarrow> cov_stats" where
  "count_entries file_map bits pos [] stats = stats"
| "count_entries file_map bits pos (e # es) stats =
     count_entries file_map bits (Suc pos) es
       (count_entry file_map e (pos < length bits \<and> bits ! pos = CHR ''1'') stats)"

definition count_instance :: "(string, string) dict \<Rightarrow> (string, entry list) dict \<Rightarrow> xml \<Rightarrow> cov_stats \<Rightarrow> cov_stats" where
  "count_instance file_map entries inst stats =
     (case dict_get entries (get_attr ''chksum'' [] inst) of
        None \<Rightarrow> stats
      | Some es \<Rightarrow> count_entries file_map (get_attr ''value'' [] inst) 0 es stats)"

definition read_data :: "(string, string) dict \<Rightarrow> (string, entry list) dict \<Rightarrow> xml result \<Rightarrow> cov_stats" where
  \<comment> \<open>an error on the data file is printed and the counts are empty\<close>
  "read_data file_map entries data = (case data of
       Inl _ \<Rightarrow> []
     | Inr d \<Rightarrow> fold (count_instance file_map entries) (iter ''instance_data'' d) [])"

text \<open>The names come first, outside the handlers; then the shape, whose handler returns empty counts,
  and the data. \<open>Inl\<close> stands for a file that cannot be read or parsed.\<close>

definition parse_coverage :: "source_tree \<Rightarrow> string \<Rightarrow> xml result \<Rightarrow> xml result \<Rightarrow> cov_stats result" where
  "parse_coverage fs metric shape data =
     (case build_file_id_map fs metric shape of
        Inl e \<Rightarrow> Inl e
      | Inr file_map \<Rightarrow>
          (case shape of
             Inl _ \<Rightarrow> Inr []
           | Inr tree \<Rightarrow> Inr (read_data file_map (shape_entries metric tree) data)))"

text \<open>The totals over all files.\<close>

definition sum_total :: "cov_stats \<Rightarrow> nat" where
  "sum_total stats = sum_list (map (\<lambda>(k, v). total v) stats)"

definition sum_covered :: "cov_stats \<Rightarrow> nat" where
  "sum_covered stats = sum_list (map (\<lambda>(k, v). covered v) stats)"

section \<open>File names\<close>

lemma set_dict_set: "distinct (map fst d) \<Longrightarrow> set (dict_set k v d) = insert (k, v) {(k', v') \<in> set d. k' \<noteq> k}"
  by (induction d) force+

lemma distinct_append_entry: "distinct (map fst d) \<Longrightarrow> distinct (map fst (append_entry k x d))"
  by (simp add: append_entry_def distinct_update)

lemma distinct_fold:
  "(\<And>x d. distinct (map fst d) \<Longrightarrow> distinct (map fst (f x d))) \<Longrightarrow> distinct (map fst d)
    \<Longrightarrow> distinct (map fst (fold f xs d))"
  by (induction xs arbitrary: d) simp_all

lemma distinct_signatures: "distinct (map fst (signatures metric tree))"
  by (simp add: signatures_def distinct_fold distinct_append_entry)

lemma find_source_Some:
  "find_source src l sig = Some name \<Longrightarrow> \<exists>f \<in> set src. sig_at (snd f) l sig \<and> name = short_name (fst f)"
  by (induction src l sig rule: find_source.induct) (auto split: if_splits)

lemma find_source_None: "find_source src l sig = None \<longleftrightarrow> (\<forall>f \<in> set src. \<not> sig_at (snd f) l sig)"
  by (induction src l sig rule: find_source.induct) auto

text \<open>An entry identifies a source file: its line number is one, and the signature is on that line.\<close>

definition identifies :: "string \<times> string \<Rightarrow> string \<times> string list \<Rightarrow> bool" where
  "identifies e f \<longleftrightarrow> (case py_int (fst e) of Inl _ \<Rightarrow> False | Inr l \<Rightarrow> sig_at (snd f) l (snd e))"

lemma identifies_simps:
  "py_int lnum = Inl x \<Longrightarrow> \<not> identifies (lnum, sig) f"
  "py_int lnum = Inr l \<Longrightarrow> identifies (lnum, sig) f \<longleftrightarrow> sig_at (snd f) l sig"
  by (simp_all add: identifies_def)

lemma find_name_Some:
  "find_name src es = Some name \<Longrightarrow> \<exists>e \<in> set es. \<exists>f \<in> set src. identifies e f \<and> name = short_name (fst f)"
  by (induction src es rule: find_name.induct)
    (auto simp: identifies_simps split: sum.splits option.splits dest!: find_source_Some)

lemma find_name_None: "find_name src es = None \<longleftrightarrow> (\<forall>e \<in> set es. \<forall>f \<in> set src. \<not> identifies e f)"
proof (induction src es rule: find_name.induct)
  case (2 src lnum sig es)
  show ?case
  proof (cases "py_int lnum")
    case (Inr l)
    with 2 show ?thesis
      using find_source_None [of src l sig] find_source_Some [of src l sig]
      by (cases "find_source src l sig") (auto simp: identifies_simps)
  qed (use 2 in \<open>simp add: identifies_simps\<close>)
qed simp

lemma get_name_file:
  "dict_get (name_file src (k, es) m) fid =
     (if fid = k \<and> find_name src (take 5 es) \<noteq> None then find_name src (take 5 es) else dict_get m fid)"
  by (auto simp: name_file_def update_conv' split: option.split)

lemma get_name_files:
  "distinct (map fst sigs) \<Longrightarrow> dict_get (fold (name_file src) sigs m) fid =
     (case dict_get sigs fid of
        None \<Rightarrow> dict_get m fid
      | Some es \<Rightarrow> case find_name src (take 5 es) of None \<Rightarrow> dict_get m fid | Some n \<Rightarrow> Some n)"
proof (induction sigs arbitrary: m)
  case (Cons s sigs)
  obtain k es where s: "s = (k, es)" by fastforce
  have "dict_get sigs k = None" using Cons.prems by (simp add: s map_of_eq_None_iff)
  with Cons show ?case by (auto simp: s get_name_file split: option.split)
qed simp

lemma load_sources_mem:
  assumes "f \<in> set (load_sources fs)"
  shows "fst f \<in> set (find_sources fs) \<and> read_lines fs (fst f) = Some (snd f)"
proof -
  let ?step = "\<lambda>sf d. case read_lines fs sf of None \<Rightarrow> d | Some lines \<Rightarrow> dict_set sf lines d"
  have "distinct (map fst (fold ?step xs d)) \<and> (\<forall>g \<in> set (fold ?step xs d). g \<in> set d \<or> fst g \<in> set xs \<and> read_lines fs (fst g) = Some (snd g))"
    if "distinct (map fst d)" for xs d
    using that
  proof (induction xs arbitrary: d)
    case (Cons x xs)
    have "distinct (map fst (?step x d))" using Cons.prems by (simp add: distinct_update split: option.split)
    from Cons.IH [OF this] Cons.prems show ?case
      by (fastforce simp: set_dict_set split: option.splits)
  qed simp
  from this [of "[]" "find_sources fs"] assms show ?thesis by (auto simp: load_sources_def)
qed

text \<open>C39: The names of the files: a file id is named by \<open>build_file_id_map\<close> exactly when one of the
  first five signatures of that id is on its line in some source file that was found and read, and
  the name is then the last part of the path of such a file.\<close>

theorem build_file_id_map_exact:
  assumes "build_file_id_map fs metric (Inr tree) = Inr names"
    and "dict_get (signatures metric tree) fid = Some es"
  shows "(dict_get names fid = None \<longleftrightarrow> (\<forall>e \<in> set (take 5 es). \<forall>f \<in> set (load_sources fs). \<not> identifies e f))
    \<and> (\<forall>name. dict_get names fid = Some name \<longrightarrow>
         (\<exists>e \<in> set (take 5 es). \<exists>path \<in> set (find_sources fs). \<exists>lines. read_lines fs path = Some lines
            \<and> identifies e (path, lines) \<and> name = short_name path))"
proof -
  have "dict_get names fid = find_name (load_sources fs) (take 5 es)"
    using assms by (auto simp: build_file_id_map_def get_name_files distinct_signatures split: option.split)
  then show ?thesis
    using find_name_None [of "load_sources fs" "take 5 es"] find_name_Some [of "load_sources fs" "take 5 es"]
      load_sources_mem [of _ fs]
    by (metis prod.collapse)
qed

text \<open>A shape with two line blocks and one source file that contains the second signature.\<close>

definition demo_shape :: xml where
  "demo_shape = Elem ''shape'' [] [Elem ''linedef'' [(''chksum'', ''c1'')]
     [Elem ''linebb'' [(''file_id'', ''7''), (''line_num'', ''x''), (''bbsig'', ''a = 1;'')] [],
      Elem ''linebb'' [(''file_id'', ''7''), (''line_num'', ''2''), (''bbsig'', '' b = 2; '')] []]]"

definition demo_src :: source_tree where
  "demo_src = \<lparr>walk = (\<lambda>d. if d = ''../rtl'' then [(''../rtl'', [''notes.txt'', ''ludp_top.sv''])] else []),
     read_lines = (\<lambda>p. if p = ''../rtl/ludp_top.sv'' then Some [''a = 1;'', ''  b = 2; // two''] else None)\<rparr>"

theorem build_file_id_map_exact_witness:
  "build_file_id_map demo_src ''line'' (Inr demo_shape) = Inr [(''7'', ''ludp_top.sv'')]
   \<and> (\<exists>e \<in> {(''x'', ''a = 1;''), (''2'', '' b = 2; '')}. \<exists>path \<in> set (find_sources demo_src). \<exists>lines.
         read_lines demo_src path = Some lines \<and> identifies e (path, lines) \<and> ''ludp_top.sv'' = short_name path)"
proof -
  have m: "build_file_id_map demo_src ''line'' (Inr demo_shape) = Inr [(''7'', ''ludp_top.sv'')]" by code_simp
  have s: "dict_get (signatures ''line'' demo_shape) ''7'' = Some [(''x'', ''a = 1;''), (''2'', '' b = 2; '')]" by code_simp
  show ?thesis using build_file_id_map_exact [OF m s] m by simp
qed

section \<open>Counts\<close>

definition cov_ok :: "cov \<Rightarrow> bool" where
  "cov_ok s \<longleftrightarrow> total s = covered s + length (uncovered s)"

definition stats_ok :: "cov_stats \<Rightarrow> bool" where
  "stats_ok stats \<longleftrightarrow> distinct (map fst stats) \<and> (\<forall>(k, s) \<in> set stats. cov_ok s)"

lemma stats_ok_cov_of: "stats_ok stats \<Longrightarrow> cov_ok (cov_of stats f)"
  by (auto simp: stats_ok_def cov_of_def cov_ok_def split: option.split dest: map_of_SomeD)

lemma count_entry_ok: "stats_ok stats \<Longrightarrow> stats_ok (count_entry fm e hit stats)"
  using stats_ok_cov_of [of stats]
  by (auto simp: stats_ok_def count_entry_def Let_def cov_ok_def set_dict_set distinct_update split: option.split)

lemma sum_total_set:
  "distinct (map fst d) \<Longrightarrow> sum_total (dict_set k v d) + total (cov_of d k) = sum_total d + total v"
  by (induction d) (auto simp: sum_total_def cov_of_def split: option.split dest: weak_map_of_SomeI)

lemma count_entry_total: "stats_ok stats \<Longrightarrow> sum_total (count_entry fm e hit stats) = sum_total stats + 1"
proof -
  assume ok: "stats_ok stats"
  obtain k v where "count_entry fm e hit stats = dict_set k v stats" "total v = total (cov_of stats k) + 1"
    by (cases hit) (simp_all add: count_entry_def Let_def)
  then show ?thesis
    using sum_total_set [of stats k v] ok by (simp add: stats_ok_def)
qed

lemma count_entries_ok:
  "stats_ok stats \<Longrightarrow> stats_ok (count_entries fm bits pos es stats)
    \<and> sum_total (count_entries fm bits pos es stats) = sum_total stats + length es"
  by (induction fm bits pos es stats rule: count_entries.induct) (simp_all add: count_entry_ok count_entry_total)

definition matched_entries :: "(string, entry list) dict \<Rightarrow> xml list \<Rightarrow> nat" where
  "matched_entries entries insts =
     sum_list (map (\<lambda>i. case dict_get entries (get_attr ''chksum'' [] i) of None \<Rightarrow> 0 | Some es \<Rightarrow> length es) insts)"

lemma count_instances_ok:
  "stats_ok stats \<Longrightarrow> stats_ok (fold (count_instance fm entries) insts stats)
    \<and> sum_total (fold (count_instance fm entries) insts stats) = sum_total stats + matched_entries entries insts"
proof (induction insts arbitrary: stats)
  case (Cons i insts)
  have "stats_ok (count_instance fm entries i stats)
      \<and> sum_total (count_instance fm entries i stats) = sum_total stats + matched_entries entries [i]"
    using Cons.prems by (simp add: count_instance_def matched_entries_def count_entries_ok split: option.split)
  with Cons.IH [of "count_instance fm entries i stats"] show ?case
    by (simp add: matched_entries_def)
qed (simp add: matched_entries_def)

lemma stats_ok_empty [simp]: "stats_ok []"
  by (simp add: stats_ok_def)

lemma parse_coverage_ok: "parse_coverage fs metric shape data = Inr stats \<Longrightarrow> stats_ok stats"
  by (auto simp: parse_coverage_def read_data_def count_instances_ok split: sum.splits)

text \<open>C38: The counts of a metric: when both trees can be read, the counts are computed, every file is
  listed once, its total is the number of its covered entries plus the number of its uncovered
  lines, and the totals of all files add up to the number of entries of the instances that have a
  shape; no entry is lost or counted twice.\<close>

theorem parse_coverage_conserves:
  "\<exists>stats. parse_coverage src metric (Inr shape) (Inr data) = Inr stats \<and> stats_ok stats
     \<and> sum_total stats = matched_entries (shape_entries metric shape) (iter ''instance_data'' data)"
  using count_instances_ok [of "[]" _ "shape_entries metric shape" "iter ''instance_data'' data"]
  by (simp add: parse_coverage_def build_file_id_map_def read_data_def sum_total_def)

text \<open>The handler around the shape file of \<open>parse_coverage\<close> never sees a file that cannot be read:
  the names are built first, from the same file and without a handler.\<close>

lemma missing_shape_raises: "parse_coverage src metric (Inl e) data = Inl e"
  by (simp add: parse_coverage_def build_file_id_map_def)

end
