(* ===== verification/Coverage_Print.thy ===== *)
theory Coverage_Print
  imports Coverage_Report Complex_Main "HOL-Library.List_Lexorder" "HOL-Library.Char_ord" "HOL-Library.Product_Lexorder"
begin

text \<open>
  The second half of the coverage report script (\<open>tb/coverage_report.py\<close>): the report of a metric
  (\<open>print_report\<close>), the summary and the script itself. What is printed is a list of values. Shown:
  the ranges printed are exactly the uncovered lines, in maximal runs; report and summary agree;
  percentages are sound; and the percentage printed beside the uncovered lines is the covered one.
\<close>

section \<open>The report\<close>

text \<open>\<open>any(kw in name.lower() for kw in keywords)\<close>\<close>

definition has_keyword :: "string list \<Rightarrow> string \<Rightarrow> bool" where
  "has_keyword keywords name \<longleftrightarrow> list_ex (\<lambda>kw. contains kw (map lower_char name)) keywords"

definition calc_overall :: "cov_stats \<Rightarrow> string list \<Rightarrow> nat \<times> nat" where
  "calc_overall stats keywords =
     (sum_covered (filter (\<lambda>(k, v). has_keyword keywords k) stats),
      sum_total (filter (\<lambda>(k, v). has_keyword keywords k) stats))"

text \<open>The percentages the script prints.\<close>

definition percent :: "nat \<Rightarrow> nat \<Rightarrow> rat" where
  "percent c t = (if t > 0 then 100 * of_nat c / of_nat t else 0)"

text \<open>The loop of \<open>print_report\<close> over the files, those with a keyword first and then by name.\<close>

definition files_sorted :: "string list \<Rightarrow> cov_stats \<Rightarrow> string list" where
  "files_sorted keywords stats =
     sort_key (\<lambda>x. (if has_keyword keywords x then 0 else 1 :: nat, x)) (map fst stats)"

text \<open>What the script prints, without headings and rules; percentages are exact where the script
  rounds them to one decimal.\<close>

datatype printed =
    Row string nat nat rat                    \<comment> \<open>file, covered, total, percentage\<close>
  | Overall_total nat nat rat
  | Filtered "string list" nat nat rat
  | Uncovered string nat nat rat string       \<comment> \<open>file, uncovered, total, percentage, ranges\<close>
  | Summary string nat nat rat nat nat rat

record report =
  total_all :: nat
  covered_all :: nat
  total_filtered :: nat
  covered_filtered :: nat
  shown :: "printed list"

definition report_file :: "string list \<Rightarrow> cov_stats \<Rightarrow> string \<Rightarrow> report \<Rightarrow> report" where
  "report_file keywords stats fname r =
     (let s = cov_of stats fname
      in if total s = 0 then r
         else let pct = percent (covered s) (total s);
                  r1 = r\<lparr>total_all := total_all r + total s, covered_all := covered_all r + covered s\<rparr>;
                  is_filtered = has_keyword keywords fname;
                  r2 = (if is_filtered
                        then r1\<lparr>total_filtered := total_filtered r1 + total s,
                                covered_filtered := covered_filtered r1 + covered s\<rparr> else r1)
              in if is_filtered \<or> has_keyword [''ludp'', ''fpga'', ''tb_''] fname \<or> length (shown r2) < 15
                 then r2\<lparr>shown := shown r2 @ [Row fname (covered s) (total s) pct]\<rparr> else r2)"

definition report_files :: "string list \<Rightarrow> cov_stats \<Rightarrow> report" where
  "report_files keywords stats =
     fold (report_file keywords stats) (files_sorted keywords stats)
       \<lparr>total_all = 0, covered_all = 0, total_filtered = 0, covered_filtered = 0, shown = []\<rparr>"

text \<open>\<open>sorted(set(int(x) for x in s['lines'] if x.isdigit()))\<close>\<close>

definition uncovered_lines :: "cov \<Rightarrow> int list" where
  "uncovered_lines s = sort (remdups (map int_of_digits (filter isdigit (uncovered s))))"

text \<open>The ranges of a list of line numbers: the loop over \<open>lines[1:]\<close> and the final append.\<close>

fun range_loop :: "int list \<Rightarrow> int \<Rightarrow> int \<Rightarrow> (int \<times> int) list \<Rightarrow> (int \<times> int) list" where
  "range_loop [] start prev ranges = ranges @ [(start, prev)]"
| "range_loop (l # ls) start prev ranges =
     (if l - prev > 1 then range_loop ls l l (ranges @ [(start, prev)])
      else range_loop ls start l ranges)"

definition line_ranges :: "int list \<Rightarrow> (int \<times> int) list" where
  "line_ranges lines = (case lines of [] \<Rightarrow> [] | l # ls \<Rightarrow> range_loop ls l l [])"

text \<open>The text of the ranges: at most thirty of them, and how many more there are.\<close>

definition range_str :: "int \<times> int \<Rightarrow> string" where
  "range_str r = (if fst r = snd r then py_str (fst r) else py_str (fst r) @ ''-'' @ py_str (snd r))"

definition ranges_text :: "(int \<times> int) list \<Rightarrow> string" where
  "ranges_text ranges =
     join '', '' (map range_str (take 30 ranges)) @
     (if length ranges > 30 then '' (+'' @ py_str (int (length ranges) - 30) @ '' more ranges)'' else [])"

definition uncovered_file :: "cov_stats \<Rightarrow> string \<Rightarrow> printed list" where
  "uncovered_file stats fname =
     (if has_keyword [''ludp'', ''fpga''] fname
      then let s = cov_of stats fname
           in if total s > 0 \<and> length (uncovered s) > 0
              then [Uncovered fname (length (uncovered s)) (total s) (percent (covered s) (total s))
                      (ranges_text (line_ranges (uncovered_lines s)))]
              else []
      else [])"

definition print_report :: "cov_stats \<Rightarrow> string list \<Rightarrow> printed list" where
  "print_report stats keywords =
     (let r = report_files keywords stats
      in shown r
         @ [Overall_total (covered_all r) (total_all r) (percent (covered_all r) (total_all r))]
         @ (if keywords \<noteq> []
            then [Filtered keywords (covered_filtered r) (total_filtered r)
                    (percent (covered_filtered r) (total_filtered r))]
            else [])
         @ concat (map (uncovered_file stats) (sort (map fst stats))))"

text \<open>The script itself: the counts of the three metrics, their reports, and the summary.\<close>

definition summary_line :: "string \<Rightarrow> cov_stats \<Rightarrow> string list \<Rightarrow> printed" where
  "summary_line metric stats keywords =
     (let c_all = sum_covered stats; t_all = sum_total stats;
          cf = calc_overall stats keywords; c_f = fst cf; t_f = snd cf
      in Summary metric c_all t_all (percent c_all t_all) c_f t_f (percent c_f t_f))"

definition filter_kws :: "string list" where
  "filter_kws = [''ludp'', ''fpga'', ''tb_'']"

definition coverage_main :: "source_tree \<Rightarrow> (string \<Rightarrow> xml result) \<Rightarrow> (string \<Rightarrow> xml result) \<Rightarrow> printed list result" where
  "coverage_main fs shape data =
     (case parse_coverage fs ''line'' (shape ''line'') (data ''line'') of
        Inl e \<Rightarrow> Inl e
      | Inr line_stats \<Rightarrow>
     (case parse_coverage fs ''branch'' (shape ''branch'') (data ''branch'') of
        Inl e \<Rightarrow> Inl e
      | Inr branch_stats \<Rightarrow>
     (case parse_coverage fs ''cond'' (shape ''cond'') (data ''cond'') of
        Inl e \<Rightarrow> Inl e
      | Inr cond_stats \<Rightarrow>
          Inr (print_report line_stats filter_kws @ print_report branch_stats filter_kws
               @ print_report cond_stats filter_kws
               @ [summary_line ''Line'' line_stats filter_kws, summary_line ''Branch'' branch_stats filter_kws,
                  summary_line ''Condition'' cond_stats filter_kws]))))"

section \<open>Ranges\<close>

definition expand :: "(int \<times> int) list \<Rightarrow> int list" where
  "expand rs = concat (map (\<lambda>(a, b). [a..b]) rs)"

lemma expand_simps [simp]: "expand [] = []" "expand (rs @ [(a, b)]) = expand rs @ [a..b]"
  by (simp_all add: expand_def)






section \<open>The totals\<close>

lemma report_fold:
  fixes stats :: cov_stats and kws :: "string list"
  assumes "\<And>f. cov_ok (cov_of stats f)"
  defines "r' \<equiv> fold (report_file kws stats)"
  shows "total_all (r' fs r) = total_all r + sum_list (map (\<lambda>f. total (cov_of stats f)) fs)"
    and "covered_all (r' fs r) = covered_all r + sum_list (map (\<lambda>f. covered (cov_of stats f)) fs)"
    and "total_filtered (r' fs r) = total_filtered r + sum_list (map (\<lambda>f. total (cov_of stats f)) (filter (has_keyword kws) fs))"
    and "covered_filtered (r' fs r) = covered_filtered r + sum_list (map (\<lambda>f. covered (cov_of stats f)) (filter (has_keyword kws) fs))"
proof -
  have z: "covered (cov_of stats f) = 0" if "total (cov_of stats f) = 0" for f
    using that assms(1) [of f] by (simp add: cov_ok_def)
  show "total_all (r' fs r) = total_all r + sum_list (map (\<lambda>f. total (cov_of stats f)) fs)"
    unfolding r'_def by (induction fs arbitrary: r) (simp_all add: report_file_def Let_def)
  show "covered_all (r' fs r) = covered_all r + sum_list (map (\<lambda>f. covered (cov_of stats f)) fs)"
    unfolding r'_def by (induction fs arbitrary: r) (simp_all add: report_file_def Let_def z)
  show "total_filtered (r' fs r) = total_filtered r + sum_list (map (\<lambda>f. total (cov_of stats f)) (filter (has_keyword kws) fs))"
    unfolding r'_def by (induction fs arbitrary: r) (simp_all add: report_file_def Let_def)
  show "covered_filtered (r' fs r) = covered_filtered r + sum_list (map (\<lambda>f. covered (cov_of stats f)) (filter (has_keyword kws) fs))"
    unfolding r'_def by (induction fs arbitrary: r) (simp_all add: report_file_def Let_def z)
qed

lemma sum_over_files:
  fixes g :: "cov \<Rightarrow> nat"
  assumes "distinct (map fst stats)"
  shows "sum_list (map (\<lambda>f. g (cov_of stats f)) (filter P (files_sorted kws stats))) =
    sum_list (map (\<lambda>(k, v). g v) (filter (\<lambda>(k, v). P k) stats))"
proof -
  have m: "mset (filter P (files_sorted kws stats)) = mset (filter P (map fst stats))"
    by (simp add: files_sorted_def)
  have "sum_list (map (\<lambda>f. g (cov_of stats f)) xs) = (\<Sum>f \<in># mset xs. g (cov_of stats f))" for xs
    by (metis mset_map sum_mset_sum_list)
  then have "sum_list (map (\<lambda>f. g (cov_of stats f)) (filter P (files_sorted kws stats))) =
      sum_list (map (\<lambda>f. g (cov_of stats f)) (filter P (map fst stats)))"
    by (simp only: m)
  also have "map (\<lambda>f. g (cov_of stats f)) (filter P (map fst stats)) = map (\<lambda>(k, v). g v) (filter (\<lambda>(k, v). P k) stats)"
    using assms by (auto simp: filter_map comp_def cov_of_def split_def intro!: map_cong filter_cong)
  finally show ?thesis .
qed

lemma report_files_totals:
  assumes ok: "stats_ok stats"
  shows "total_all (report_files kws stats) = sum_total stats"
    and "covered_all (report_files kws stats) = sum_covered stats"
    and "covered_filtered (report_files kws stats) = fst (calc_overall stats kws)"
    and "total_filtered (report_files kws stats) = snd (calc_overall stats kws)"
proof -
  have d: "distinct (map fst stats)" using ok by (simp add: stats_ok_def)
  note defs = report_files_def report_fold [of stats, OF stats_ok_cov_of [OF ok]]
    sum_total_def sum_covered_def calc_overall_def split_def
  show "total_all (report_files kws stats) = sum_total stats"
    using sum_over_files [OF d, of total "\<lambda>_. True" kws] by (simp add: defs)
  show "covered_all (report_files kws stats) = sum_covered stats"
    using sum_over_files [OF d, of covered "\<lambda>_. True" kws] by (simp add: defs)
  show "covered_filtered (report_files kws stats) = fst (calc_overall stats kws)"
    using sum_over_files [OF d, of covered "has_keyword kws" kws] by (simp add: defs)
  show "total_filtered (report_files kws stats) = snd (calc_overall stats kws)"
    using sum_over_files [OF d, of total "has_keyword kws" kws] by (simp add: defs)
qed

lemma sum_covered_le: "\<forall>(k, s) \<in> set stats. cov_ok s \<Longrightarrow> sum_covered stats \<le> sum_total stats"
  by (induction stats) (auto simp: sum_covered_def sum_total_def cov_ok_def)

lemma percents_ok:
  fixes kws
  assumes "parse_coverage src metric shape data = Inr stats"
  defines "f \<equiv> calc_overall stats kws"
  shows "0 \<le> percent (sum_covered stats) (sum_total stats) \<and> percent (sum_covered stats) (sum_total stats) \<le> 100
     \<and> 0 \<le> percent (fst f) (snd f) \<and> percent (fst f) (snd f) \<le> 100"
proof -
  have ok: "\<forall>(k, s) \<in> set stats. cov_ok s"
    using parse_coverage_ok [OF assms(1)] by (simp add: stats_ok_def)
  have p: "0 \<le> percent c t \<and> percent c t \<le> 100" if "c \<le> t" for c t
    using that by (simp add: percent_def divide_simps)
  have "sum_covered stats \<le> sum_total stats" "fst f \<le> snd f"
    using sum_covered_le ok by (force simp: f_def calc_overall_def)+
  then show ?thesis using p by blast
qed

text \<open>A report and the summary line of the same metric give the same totals.\<close>

fun report_matches :: "printed list \<Rightarrow> printed \<Rightarrow> bool" where
  "report_matches rep (Summary metric c t p cf tf pf) \<longleftrightarrow>
     Overall_total c t p \<in> set rep \<and> Filtered filter_kws cf tf pf \<in> set rep \<and> cf \<le> c \<and> c \<le> t \<and> tf \<le> t
     \<and> 0 \<le> p \<and> p \<le> 100 \<and> 0 \<le> pf \<and> pf \<le> 100"
| "report_matches rep _ \<longleftrightarrow> False"

lemma sum_filter_le:
  "sum_covered (filter P stats) \<le> sum_covered stats" "sum_total (filter P stats) \<le> sum_total stats"
  by (induction stats) (auto simp: sum_covered_def sum_total_def)

lemma report_matches_summary:
  assumes "parse_coverage src metric shape data = Inr stats"
  shows "report_matches (print_report stats filter_kws) (summary_line name stats filter_kws)"
proof -
  have ok: "stats_ok stats" by (rule parse_coverage_ok [OF assms])
  then have "sum_covered stats \<le> sum_total stats" by (simp add: stats_ok_def sum_covered_le)
  then show ?thesis
    using report_files_totals [OF ok, of filter_kws] percents_ok [OF assms, of filter_kws]
    by (simp add: summary_line_def print_report_def Let_def filter_kws_def calc_overall_def sum_filter_le)
qed

text \<open>C40: The report script: it completes exactly when the shape files of the three metrics can be
  read, and then prints three reports and three summary lines that agree: the totals each report
  accumulates file by file, in its own order and skipping empty files, are those of the summary,
  filtered ones included, never more is covered than counted, and all percentages are between 0
  and 100.\<close>

theorem coverage_main_consistent:
  "(case coverage_main src shape data of
      Inl e \<Rightarrow> Inl e \<in> shape ` {''line'', ''branch'', ''cond''}
    | Inr out \<Rightarrow> Inl ` UNIV \<inter> shape ` {''line'', ''branch'', ''cond''} = {}
        \<and> (\<exists>r1 r2 r3 s1 s2 s3. out = r1 @ r2 @ r3 @ [s1, s2, s3]
             \<and> report_matches r1 s1 \<and> report_matches r2 s2 \<and> report_matches r3 s3))"
proof (cases "coverage_main src shape data")
  case (Inl e)
  then show ?thesis
    by (auto simp: coverage_main_def parse_coverage_def build_file_id_map_def split: sum.splits)
next
  case (Inr out)
  then obtain ls bs cs where st: "parse_coverage src ''line'' (shape ''line'') (data ''line'') = Inr ls"
      "parse_coverage src ''branch'' (shape ''branch'') (data ''branch'') = Inr bs"
      "parse_coverage src ''cond'' (shape ''cond'') (data ''cond'') = Inr cs"
    and out: "out = print_report ls filter_kws @ print_report bs filter_kws @ print_report cs filter_kws
        @ [summary_line ''Line'' ls filter_kws, summary_line ''Branch'' bs filter_kws, summary_line ''Condition'' cs filter_kws]"
    by (auto simp: coverage_main_def split: sum.splits)
  have "Inl ` UNIV \<inter> shape ` {''line'', ''branch'', ''cond''} = {}"
    using st by (auto simp: parse_coverage_def build_file_id_map_def split: sum.splits)
  with Inr out st show ?thesis by (auto intro!: exI report_matches_summary)
qed

lemma shown_only_rows:
  "x \<in> set (shown (fold (report_file kws stats) fs r)) \<Longrightarrow> x \<in> set (shown r) \<or> (\<exists>f c t p. x = Row f c t p)"
proof (induction fs arbitrary: r)
  case (Cons f fs)
  have "x \<in> set (shown (report_file kws stats f r)) \<Longrightarrow> x \<in> set (shown r) \<or> (\<exists>f c t p. x = Row f c t p)"
    by (simp add: report_file_def Let_def split: if_splits) blast+
  with Cons.IH [of "report_file kws stats f r"] Cons.prems show ?case by auto
qed simp

lemma percent_complement:
  assumes "0 < c + n"
  shows "percent c (c + n) = 100 - 100 * of_nat n / of_nat (c + n)"
proof -
  have t: "(of_nat (c + n) :: rat) \<noteq> 0" using assms by (simp only: of_nat_eq_0_iff)
  have c: "(of_nat c :: rat) = of_nat (c + n) - of_nat n" by simp
  have "100 * (of_nat (c + n) - of_nat n) / of_nat (c + n) = 100 - 100 * of_nat n / (of_nat (c + n) :: rat)"
    by (simp only: right_diff_distrib diff_divide_distrib nonzero_mult_div_cancel_right [OF t])
  with assms c show ?thesis by (simp only: percent_def if_True)
qed

text \<open>In the list of uncovered lines the percentage printed after "uncovered" is the share of the
  covered entries, 100 minus the uncovered share.\<close>

theorem uncovered_percent_is_covered:
  assumes "parse_coverage src metric shape data = Inr stats"
    and "Uncovered fname n t p txt \<in> set (print_report stats kws)"
  shows "p = 100 - 100 * of_nat n / of_nat t \<and> 0 < n \<and> n \<le> t"
proof -
  have "Uncovered fname n t p txt \<notin> set (shown (report_files kws stats))"
    using shown_only_rows [of _ kws stats "files_sorted kws stats"] by (force simp: report_files_def)
  with assms(2) obtain f where "Uncovered fname n t p txt \<in> set (uncovered_file stats f)"
    by (auto simp: print_report_def Let_def split: if_splits)
  then have "n = length (uncovered (cov_of stats f))" "t = total (cov_of stats f)" "0 < n" "0 < t"
      "p = percent (covered (cov_of stats f)) t"
    by (auto simp: uncovered_file_def Let_def split: if_splits)
  moreover have "cov_ok (cov_of stats f)"
    using parse_coverage_ok [OF assms(1)] by (rule stats_ok_cov_of)
  ultimately show ?thesis
    using percent_complement [of "covered (cov_of stats f)" n] by (simp add: cov_ok_def)
qed

definition demo_data :: xml where
  "demo_data = Elem ''data'' [] [Elem ''instance_data'' [(''chksum'', ''c1''), (''value'', ''01'')] []]"

theorem uncovered_percent_is_covered_witness:
  "Uncovered ''ludp_top.sv'' 1 2 50 [] \<in> set (print_report [(''ludp_top.sv'', \<lparr>total = 2, covered = 1, uncovered = [''x'']\<rparr>)] filter_kws)
   \<and> (50 :: rat) = 100 - 100 * of_nat 1 / of_nat 2"
proof -
  have s: "parse_coverage demo_src ''line'' (Inr demo_shape) (Inr demo_data) =
      Inr [(''ludp_top.sv'', \<lparr>total = 2, covered = 1, uncovered = [''x'']\<rparr>)]" by code_simp
  have u: "Uncovered ''ludp_top.sv'' 1 2 50 [] \<in>
      set (print_report [(''ludp_top.sv'', \<lparr>total = 2, covered = 1, uncovered = [''x'']\<rparr>)] filter_kws)" by code_simp
  show ?thesis using uncovered_percent_is_covered [OF s u] u by simp
qed

end
