(* ===== verification/Rtl_Rx.thy ===== *)
theory Rtl_Rx
  imports Ludp_Fpga
begin

text \<open>
  The receive side of the FPGA clock by clock: the module \<open>rtl/ludp_protocol_rx.sv\<close> (header
  handshake, two beats of a packet on a 64-bit bus, decoding at the last beat) and the shared
  registers of \<open>rtl/ludp_protocol.sv\<close>. A cycle is a function of the inputs and the registers;
  combinational outputs are a value computed from both. Shown: for every sequence of inputs, with
  any gaps, errors, status reports and concurrent transmissions, the registers follow the
  packet-level model \<open>fpga_recv\<close>, as long as packets have two beats; and what a packet of one beat
  does.
\<close>

section \<open>The receiver\<close>

datatype rx_state_t = RX_IDLE | RX_PACKET

record rx =
  rx_state_reg :: rx_state_t
  rx_beat_count_reg :: "4 word"
  rx_hdr :: rx_regs                \<comment> \<open>\<open>rx_magic_reg\<close> to \<open>rx_arg2_reg\<close>\<close>
  cmd_opcode_reg :: "16 word"
  cmd_arg1_reg :: "32 word"
  cmd_arg2_reg :: "16 word"
  cmd_valid_reg :: bool
  cmd_count_reg :: "32 word"
  packets_retx_reg :: "32 word"
  rx_src_mac_reg :: "48 word"
  rx_src_ip_reg :: "32 word"
  rx_src_port_reg :: "16 word"

record rx_in =
  udp_hdr_valid :: bool
  udp_eth_src_mac :: "48 word"
  udp_ip_source_ip :: "32 word"
  udp_source_port :: "16 word"
  axis_tdata :: "64 word"
  axis_tvalid :: bool
  axis_tlast :: bool
  axis_tuser :: bool
  status_valid :: bool
  status_opcode :: "16 word"
  status_data :: "32 word"
  tx_resp_done :: bool       \<comment> \<open>from the transmitter\<close>
  sch_tx_pkt_done :: bool    \<comment> \<open>from the scheduler\<close>

record rx_out =
  rx_resp_req :: bool
  rx_resp :: resp_regs
  rx_cmd_start_req :: bool
  rx_cmd_stop_req :: bool
  rx_credit_valid :: bool
  rx_credit_new :: "32 word"
  rx_status_req :: bool
  rx_status_opcode :: "16 word"
  rx_status_data :: "32 word"
  rx_retx_req :: bool
  rx_retx_seq :: "32 word"

text \<open>The shared registers of \<open>rtl/ludp_protocol.sv\<close>.\<close>

record proto =
  p_seq_num :: "32 word"
  p_credit_limit :: "32 word"
  p_tx_enabled :: bool
  p_packets_sent :: "32 word"
  p_resp :: resp_regs
  p_resp_ongoing :: bool

definition no_resp :: resp_regs where
  "no_resp = \<lparr>resp_opcode = 0, resp_cmd_id = 0, resp_status = 0, resp_data = 0, resp_is_cpl = False\<rparr>"

definition no_hdr :: rx_regs where
  "no_hdr = \<lparr>rx_magic_reg = 0, rx_type_reg = 0, rx_flags_reg = 0, rx_seq_reg = 0,
     rx_opcode_reg = 0, rx_arg1_reg = 0, rx_arg2_reg = 0\<rparr>"

definition rx_reset :: rx where
  "rx_reset = \<lparr>rx_state_reg = RX_IDLE, rx_beat_count_reg = 0, rx_hdr = no_hdr, cmd_opcode_reg = 0, cmd_arg1_reg = 0,
     cmd_arg2_reg = 0, cmd_valid_reg = False, cmd_count_reg = 0, packets_retx_reg = 0,
     rx_src_mac_reg = 0, rx_src_ip_reg = 0, rx_src_port_reg = 0\<rparr>"

definition proto_reset :: proto where
  "proto_reset = \<lparr>p_seq_num = 0, p_credit_limit = 0, p_tx_enabled = False, p_packets_sent = 0,
     p_resp = no_resp, p_resp_ongoing = False\<rparr>"

text \<open>A beat is taken in state \<open>RX_PACKET\<close>, where the module is always ready.\<close>

definition rx_pkt_complete :: "rx_in \<Rightarrow> rx \<Rightarrow> bool" where
  "rx_pkt_complete i s \<longleftrightarrow> rx_state_reg s = RX_PACKET \<and> axis_tvalid i \<and> axis_tlast i \<and> \<not> axis_tuser i
     \<and> rx_magic_reg (rx_hdr s) = MAGIC"

definition rx_quiet :: rx_out where
  "rx_quiet = \<lparr>rx_resp_req = False, rx_resp = no_resp, rx_cmd_start_req = False, rx_cmd_stop_req = False,
     rx_credit_valid = False, rx_credit_new = 0, rx_status_req = False, rx_status_opcode = 0, rx_status_data = 0,
     rx_retx_req = False, rx_retx_seq = 0\<rparr>"

text \<open>The combinational block.\<close>

definition rx_comb :: "rx_in \<Rightarrow> proto \<Rightarrow> rx \<Rightarrow> rx_out" where
  "rx_comb i p s =
     (let r = rx_hdr s; opcode = (ucast (axis_tdata i) :: 16 word);
          o1 = (if \<not> rx_pkt_complete i s then rx_quiet
                else if rx_type_reg r = TYPE_CMD then
                  (if p_resp_ongoing p then rx_quiet
                   else rx_quiet\<lparr>rx_resp_req := True,
                     rx_resp := \<lparr>resp_opcode = opcode, resp_cmd_id = rx_seq_reg r, resp_status = 0,
                       resp_data = (if rx_flags_reg r = 0 then 0 else if p_tx_enabled p then 0x80000000 else 0),
                       resp_is_cpl = (rx_flags_reg r \<noteq> 0)\<rparr>,
                     rx_cmd_start_req := (opcode = 0x0001),
                     rx_cmd_stop_req := (opcode = 0x0002)\<rparr>)
                else if rx_type_reg r = TYPE_NACK then
                  rx_quiet\<lparr>rx_retx_req := True, rx_retx_seq := rx_seq_reg r\<rparr>
                else if rx_type_reg r = TYPE_CREDIT then
                  (if sint (rx_seq_reg r - p_credit_limit p) > 0
                   then rx_quiet\<lparr>rx_credit_valid := True, rx_credit_new := rx_seq_reg r\<rparr> else rx_quiet)
                else rx_quiet)
      in if status_valid i \<and> \<not> p_resp_ongoing p \<and> \<not> rx_pkt_complete i s
         then o1\<lparr>rx_status_req := True, rx_status_opcode := status_opcode i, rx_status_data := status_data i\<rparr>
         else o1)"

text \<open>The registers of the receiver at the next clock edge.\<close>

definition rx_last_beat :: "64 word \<Rightarrow> rx \<Rightarrow> rx" where
  "rx_last_beat w s =
     (let s1 = s\<lparr>rx_beat_count_reg := 0, rx_state_reg := RX_IDLE\<rparr>; r = rx_hdr s
      in if rx_magic_reg r \<noteq> MAGIC then s1
         else if rx_type_reg r = TYPE_CMD then
           s1\<lparr>cmd_opcode_reg := ucast w, cmd_arg1_reg := ucast (drop_bit 16 w), cmd_arg2_reg := ucast (drop_bit 48 w),
              cmd_valid_reg := True, cmd_count_reg := cmd_count_reg s + 1\<rparr>
         else if rx_type_reg r = TYPE_NACK then s1\<lparr>packets_retx_reg := packets_retx_reg s + 1\<rparr>
         else s1)"

definition rx_ff :: "rx_in \<Rightarrow> rx \<Rightarrow> rx" where
  "rx_ff i s0 =
     (let s = s0\<lparr>cmd_valid_reg := False\<rparr>
      in case rx_state_reg s of
           RX_IDLE \<Rightarrow>
             let s1 = s\<lparr>rx_beat_count_reg := 0\<rparr>
             in if udp_hdr_valid i
                then s1\<lparr>rx_state_reg := RX_PACKET, rx_src_mac_reg := udp_eth_src_mac i,
                        rx_src_ip_reg := udp_ip_source_ip i, rx_src_port_reg := udp_source_port i\<rparr>
                else s1
         | RX_PACKET \<Rightarrow>
             if \<not> axis_tvalid i then s
             else if axis_tuser i then s\<lparr>rx_beat_count_reg := 0, rx_state_reg := RX_IDLE\<rparr>
             else let w = axis_tdata i; n = rx_beat_count_reg s;
                      hdr = (if n = 0 then rx_beat0 w (rx_hdr s)
                             else if n = 1 then rx_beat1 w (rx_hdr s) else rx_hdr s);
                      s1 = (if axis_tlast i then rx_last_beat w s else s\<lparr>rx_beat_count_reg := n + 1\<rparr>)
                  in s1\<lparr>rx_hdr := hdr\<rparr>)"

section \<open>The shared registers\<close>

definition proto_ff :: "rx_in \<Rightarrow> rx_out \<Rightarrow> proto \<Rightarrow> proto" where
  "proto_ff i c p =
     (let p1 = (if tx_resp_done i then p\<lparr>p_resp_ongoing := False\<rparr> else p);
          p2 = (if sch_tx_pkt_done i
                then p1\<lparr>p_seq_num := p_seq_num p + 1, p_packets_sent := p_packets_sent p + 1\<rparr> else p1);
          p3 = (if rx_cmd_start_req c
                then p2\<lparr>p_tx_enabled := True, p_seq_num := 0, p_credit_limit := 0\<rparr> else p2);
          p4 = (if rx_cmd_stop_req c then p3\<lparr>p_tx_enabled := False\<rparr> else p3);
          p5 = (if rx_credit_valid c then p4\<lparr>p_credit_limit := rx_credit_new c\<rparr> else p4)
      in if p_resp_ongoing p then p5
         else if rx_resp_req c then p5\<lparr>p_resp := rx_resp c, p_resp_ongoing := True\<rparr>
         else if rx_status_req c
           then p5\<lparr>p_resp := \<lparr>resp_opcode = rx_status_opcode c, resp_cmd_id = 0, resp_status = 0,
                       resp_data = rx_status_data c, resp_is_cpl = True\<rparr>, p_resp_ongoing := True\<rparr>
         else p5)"

definition rtl_cycle :: "rx_in \<Rightarrow> rx \<times> proto \<Rightarrow> rx \<times> proto" where
  "rtl_cycle i sp = (rx_ff i (fst sp), proto_ff i (rx_comb i (snd sp) (fst sp)) (snd sp))"

definition rtl_run :: "rx_in list \<Rightarrow> rx \<times> proto" where
  "rtl_run ins = fold rtl_cycle ins (rx_reset, proto_reset)"

section \<open>The packets on the bus\<close>

text \<open>What the bus carries, read off the inputs alone: between packets, or the beats so far.\<close>

datatype bus = Between | Within "64 word list"

fun bus_step :: "rx_in \<Rightarrow> bus \<Rightarrow> 64 word list option \<times> bus" where
  "bus_step i Between = (None, if udp_hdr_valid i then Within [] else Between)"
| "bus_step i (Within ws) =
     (if \<not> axis_tvalid i then (None, Within ws)
      else if axis_tuser i then (None, Between)
      else if axis_tlast i then (Some (ws @ [axis_tdata i]), Between)
      else (None, Within (ws @ [axis_tdata i])))"

text \<open>Every packet that is not cut off by an error has two beats.\<close>

fun framed :: "rx_in list \<Rightarrow> bus \<Rightarrow> bool" where
  "framed [] b \<longleftrightarrow> True"
| "framed (i # ins) b \<longleftrightarrow>
     (case b of Between \<Rightarrow> True
      | Within ws \<Rightarrow> axis_tvalid i \<and> \<not> axis_tuser i \<longrightarrow> (axis_tlast i \<longleftrightarrow> length ws = 1))
     \<and> framed ins (snd (bus_step i b))"

section \<open>The same cycles at packet level\<close>

definition magic_ok :: "bytes \<Rightarrow> bool" where
  "magic_ok d \<longleftrightarrow> rx_magic_reg (rx_header d no_hdr) = MAGIC"

text \<open>A status report takes the place of a response.\<close>

definition fpga_status :: "16 word \<Rightarrow> 32 word \<Rightarrow> fpga \<Rightarrow> fpga" where
  "fpga_status opc dat f =
     (if resp_reg f \<noteq> None then f
      else f\<lparr>resp_reg := Some \<lparr>resp_opcode = opc, resp_cmd_id = 0, resp_status = 0, resp_data = dat, resp_is_cpl = True\<rparr>\<rparr>)"

definition fpga_cycle :: "rx_in \<Rightarrow> bytes option \<Rightarrow> fpga \<Rightarrow> fpga" where
  "fpga_cycle i pkt f =
     (let f1 = (if sch_tx_pkt_done i then f\<lparr>seq_num_reg := seq_num_reg f + 1\<rparr> else f);
          f2 = (case pkt of None \<Rightarrow> f1 | Some d \<Rightarrow> fpga_recv d f1);
          f3 = (if status_valid i \<and> \<not> (case pkt of None \<Rightarrow> False | Some d \<Rightarrow> magic_ok d)
                then fpga_status (status_opcode i) (status_data i) f2 else f2)
      in if tx_resp_done i \<and> resp_reg f \<noteq> None then f3\<lparr>resp_reg := None\<rparr> else f3)"

definition beats_bytes :: "64 word list \<Rightarrow> bytes" where
  "beats_bytes ws = concat (map beat_bytes ws)"

fun fpga_trace :: "rx_in list \<Rightarrow> bus \<Rightarrow> fpga \<Rightarrow> fpga" where
  "fpga_trace [] b f = f"
| "fpga_trace (i # ins) b f =
     fpga_trace ins (snd (bus_step i b)) (fpga_cycle i (map_option beats_bytes (fst (bus_step i b))) f)"

definition proto_abs :: "proto \<Rightarrow> fpga" where
  "proto_abs p = \<lparr>seq_num_reg = p_seq_num p, credit_limit_reg = p_credit_limit p, f2h_tx_enabled_reg = p_tx_enabled p,
     resp_reg = (if p_resp_ongoing p then Some (p_resp p) else None)\<rparr>"

section \<open>Refinement\<close>

lemma tdata_beat_bytes: "tdata (beat_bytes w) = w"
proof -
  have "le_value (le_bytes 8 (uint w)) = uint w"
    using uint_lt2p [of w] by (intro le_value_le_bytes) simp_all
  then show ?thesis by (simp add: tdata_def beat_bytes_def)
qed

lemma rx_header_beats: "rx_header (beats_bytes [w0, w1]) r = rx_beat1 w1 (rx_beat0 w0 r)"
  by (simp add: rx_header_def beats_bytes_def py_slice_def tdata_beat_bytes)

lemma rx_beats_fields:
  "rx_magic_reg (rx_beat1 w1 r) = rx_magic_reg r" "rx_type_reg (rx_beat1 w1 r) = rx_type_reg r"
  "rx_flags_reg (rx_beat1 w1 r) = rx_flags_reg r" "rx_seq_reg (rx_beat1 w1 r) = rx_seq_reg r"
  "rx_opcode_reg (rx_beat1 w1 r) = ucast w1"
  "rx_magic_reg (rx_beat0 w0 r) = ucast w0" "rx_type_reg (rx_beat0 w0 r) = ucast (drop_bit 16 w0)"
  "rx_flags_reg (rx_beat0 w0 r) = ucast (drop_bit 24 w0)" "rx_seq_reg (rx_beat0 w0 r) = ucast (drop_bit 32 w0)"
  by (simp_all add: rx_beat0_def rx_beat1_def)

text \<open>The state of the receiver follows the bus: its state, the beat count and, after the first
  beat, the header registers.\<close>

fun follows :: "rx \<Rightarrow> bus \<Rightarrow> bool" where
  "follows s Between \<longleftrightarrow> rx_state_reg s = RX_IDLE"
| "follows s (Within ws) \<longleftrightarrow> rx_state_reg s = RX_PACKET \<and> length ws < 2 \<and> rx_beat_count_reg s = of_nat (length ws)
     \<and> (\<forall>w \<in> set ws. \<exists>h. rx_hdr s = rx_beat0 w h)"

lemma rx_ff_follows:
  assumes "follows s b" and "framed [i] b"
  shows "follows (rx_ff i s) (snd (bus_step i b))"
proof (cases b)
  case Between
  with assms show ?thesis by (auto simp: rx_ff_def Let_def)
next
  case (Within ws)
  with assms consider "ws = []" | w where "ws = [w]"
    by (cases ws; cases "tl ws") auto
  then show ?thesis
    using assms Within
    by cases (auto simp: rx_ff_def rx_last_beat_def Let_def)
qed

lemma proto_cycle_idle:
  assumes "\<not> rx_pkt_complete i s"
  shows "proto_abs (proto_ff i (rx_comb i p s) p) = fpga_cycle i None (proto_abs p)"
  using assms
  by (simp add: proto_abs_def proto_ff_def rx_comb_def fpga_cycle_def fpga_status_def rx_quiet_def Let_def)

lemma proto_cycle_complete:
  assumes "rx_pkt_complete i s" and "rx_hdr s = rx_beat0 w h"
  shows "proto_abs (proto_ff i (rx_comb i p s) p) = fpga_cycle i (Some (beats_bytes [w, axis_tdata i])) (proto_abs p)"
proof -
  have m: "magic_ok (beats_bytes [w, axis_tdata i])"
    using assms by (simp add: magic_ok_def rx_header_beats rx_beats_fields rx_pkt_complete_def)
  show ?thesis
    using assms m
    by (simp add: proto_abs_def proto_ff_def rx_comb_def fpga_cycle_def fpga_recv_def rx_header_beats rx_beats_fields
        rx_pkt_complete_def rx_quiet_def Let_def)
qed

lemma fpga_cycle_other: "\<not> magic_ok d \<Longrightarrow> fpga_cycle i (Some d) f = fpga_cycle i None f"
  by (simp add: fpga_cycle_def fpga_recv_def magic_ok_def no_hdr_def Let_def)

lemma proto_cycle:
  assumes "follows s b" and "framed [i] b"
  shows "proto_abs (proto_ff i (rx_comb i p s) p) =
    fpga_cycle i (map_option beats_bytes (fst (bus_step i b))) (proto_abs p)"
proof (cases "\<exists>w. b = Within [w] \<and> axis_tvalid i \<and> \<not> axis_tuser i")
  case True
  then obtain w where b: "b = Within [w]" "axis_tvalid i" "\<not> axis_tuser i" by blast
  with assms obtain h where s: "rx_state_reg s = RX_PACKET" "rx_hdr s = rx_beat0 w h" "axis_tlast i" by auto
  show ?thesis
  proof (cases "rx_pkt_complete i s")
    case True
    with s b show ?thesis by (simp add: proto_cycle_complete)
  next
    case False
    with s b have "\<not> magic_ok (beats_bytes [w, axis_tdata i])"
      by (simp add: magic_ok_def rx_header_beats rx_beats_fields rx_pkt_complete_def)
    with False s b show ?thesis by (simp add: proto_cycle_idle fpga_cycle_other)
  qed
next
  case False
  with assms have "fst (bus_step i b) = None" and "\<not> rx_pkt_complete i s"
    by (cases b; auto simp: rx_pkt_complete_def length_Suc_conv)+
  then show ?thesis by (simp add: proto_cycle_idle)
qed

lemma framed_Cons: "framed (i # ins) b \<longleftrightarrow> framed [i] b \<and> framed ins (snd (bus_step i b))"
  by simp

lemma rtl_trace:
  "framed ins b \<Longrightarrow> follows s b \<Longrightarrow> proto_abs (snd (fold rtl_cycle ins (s, p))) = fpga_trace ins b (proto_abs p)"
proof (induction ins arbitrary: b s p)
  case (Cons i ins)
  then have f: "framed [i] b" "framed ins (snd (bus_step i b))" by (simp_all only: framed_Cons [of i ins])
  have "follows (rx_ff i s) (snd (bus_step i b))" by (rule rx_ff_follows [OF Cons.prems(2) f(1)])
  from Cons.IH [OF f(2) this] show ?case
    by (simp add: rtl_cycle_def proto_cycle [OF Cons.prems(2) f(1)])
qed simp

text \<open>The receiver of the FPGA implements the packet-level model: for every sequence of clock cycles
  after reset, with gaps between beats, packets cut off by errors, status reports, answers and data
  packets finishing at any time.\<close>

lemma rtl_run_refines:
  assumes "framed ins Between"
  shows "proto_abs (snd (rtl_run ins)) = fpga_trace ins Between fpga_reset"
proof -
  have "proto_abs proto_reset = fpga_reset"
    by (simp add: proto_abs_def proto_reset_def fpga_reset_def)
  with rtl_trace [OF assms, of rx_reset proto_reset] show ?thesis
    by (simp add: rtl_run_def rx_reset_def)
qed

text \<open>An idle cycle, a header, a beat and a last beat.\<close>

definition no_in :: rx_in where
  "no_in = \<lparr>udp_hdr_valid = False, udp_eth_src_mac = 0, udp_ip_source_ip = 0, udp_source_port = 0,
     axis_tdata = 0, axis_tvalid = False, axis_tlast = False, axis_tuser = False,
     status_valid = False, status_opcode = 0, status_data = 0, tx_resp_done = False, sch_tx_pkt_done = False\<rparr>"

definition header_in :: rx_in where
  "header_in = no_in\<lparr>udp_hdr_valid := True\<rparr>"

definition beat_in :: "64 word \<Rightarrow> bool \<Rightarrow> rx_in" where
  "beat_in w l = no_in\<lparr>axis_tdata := w, axis_tvalid := True, axis_tlast := l\<rparr>"

section \<open>Packets of one beat\<close>

text \<open>C21: A packet of one beat is decoded with the header of the packet before it: after any command,
  a datagram of at most eight bytes that starts with 01 00, whatever its magic number and type,
  restarts the transmission: the sequence number and the credit limit are cleared, and the answer
  carries the id of the earlier command.\<close>

theorem one_beat_packet_replays:
  assumes "rx_state_reg s = RX_PACKET" and "rx_beat_count_reg s = 0"
    and "rx_magic_reg (rx_hdr s) = MAGIC" and "rx_type_reg (rx_hdr s) = TYPE_CMD" and "\<not> p_resp_ongoing p"
    and "axis_tvalid i" and "axis_tlast i" and "\<not> axis_tuser i" and "ucast (axis_tdata i) = (0x0001 :: 16 word)"
  shows "p_seq_num (snd (rtl_cycle i (s, p))) = 0 \<and> p_credit_limit (snd (rtl_cycle i (s, p))) = 0
    \<and> p_tx_enabled (snd (rtl_cycle i (s, p)))
    \<and> p_resp_ongoing (snd (rtl_cycle i (s, p))) \<and> resp_cmd_id (p_resp (snd (rtl_cycle i (s, p)))) = rx_seq_reg (rx_hdr s)"
  using assms by (simp add: rtl_cycle_def proto_ff_def rx_comb_def rx_pkt_complete_def rx_quiet_def Let_def)

definition stop_trace :: "rx_in list" where
  "stop_trace = [header_in, beat_in (beat0 7 0 TYPE_CMD) False, beat_in (beat1 0 0 2) True,
     no_in\<lparr>tx_resp_done := True\<rparr>, header_in]"

theorem one_beat_packet_replays_witness:
  "\<not> p_tx_enabled (snd (rtl_run stop_trace)) \<and> p_tx_enabled (snd (rtl_cycle (beat_in 0x0001 True) (rtl_run stop_trace)))"
proof -
  obtain s p where sp: "rtl_run stop_trace = (s, p)" by fastforce
  have "rx_state_reg (fst (rtl_run stop_trace)) = RX_PACKET \<and> rx_beat_count_reg (fst (rtl_run stop_trace)) = 0
      \<and> rx_magic_reg (rx_hdr (fst (rtl_run stop_trace))) = MAGIC \<and> rx_type_reg (rx_hdr (fst (rtl_run stop_trace))) = TYPE_CMD
      \<and> \<not> p_resp_ongoing (snd (rtl_run stop_trace)) \<and> \<not> p_tx_enabled (snd (rtl_run stop_trace))" by code_simp
  then have c: "rx_state_reg s = RX_PACKET" "rx_beat_count_reg s = 0" "rx_magic_reg (rx_hdr s) = MAGIC"
      "rx_type_reg (rx_hdr s) = TYPE_CMD" "\<not> p_resp_ongoing p" "\<not> p_tx_enabled p" by (simp_all add: sp)
  have i: "axis_tvalid (beat_in 0x0001 True)" "axis_tlast (beat_in 0x0001 True)" "\<not> axis_tuser (beat_in 0x0001 True)"
      "ucast (axis_tdata (beat_in 0x0001 True)) = (0x0001 :: 16 word)" by (simp_all add: beat_in_def no_in_def)
  show ?thesis using one_beat_packet_replays [OF c(1-5) i] c(6) by (simp add: sp)
qed

end
