(* ===== verification/Rtl_Tx.thy ===== *)
theory Rtl_Tx
  imports Rtl_Rx
begin

text \<open>
  The transmit side of the FPGA clock by clock (\<open>rtl/ludp_protocol_tx.sv\<close>): the state machine that
  sends a response of two beats, or two header beats and the payload stream of the scheduler. The
  multiplexer behind its two output ports is outside: its \<open>tready\<close> signals are inputs. Shown: under
  any back-pressure the beats accepted on a port are those of the packet, in order and once, and the
  packet ends when its port has been ready often enough.
\<close>

section \<open>The transmitter\<close>

datatype tx_state_t = TX_IDLE | TX_RESP | TX_DATA_HDR | TX_DATA

record tx =
  tx_state_reg :: tx_state_t
  hdr_valid_reg :: bool
  tx_beat_count_reg :: "4 word"
  tx_header_beat0_reg :: "64 word"
  tx_header_beat1_reg :: "64 word"
  tx_payload_size_reg :: "16 word"
  tx_payload_bytes_sent_reg :: "16 word"

record tx_in =
  data_in_tdata :: "64 word"
  data_in_tkeep :: "8 word"
  data_in_tvalid :: bool
  data_in_tlast :: bool
  tx_ready_in :: bool             \<comment> \<open>\<open>tx_pkt_ready\<close>\<close>
  sch_ready_in :: bool            \<comment> \<open>\<open>sch_ready\<close>\<close>
  retx_found :: bool
  rd_pkt_size :: "16 word"
  rd_pkt_seq :: "32 word"
  tx_udp_hdr_ready :: bool
  s0_tready :: bool               \<comment> \<open>\<open>tx_axis_s[0].tready\<close>, responses\<close>
  s1_tready :: bool               \<comment> \<open>\<open>tx_axis_s[1].tready\<close>, data\<close>
  resp_in :: resp_regs
  resp_ongoing :: bool
  window_ok :: bool               \<comment> \<open>\<open>f2h_tx_ok\<close>\<close>
  cmd_start_req :: bool

definition tx_reset :: tx where
  "tx_reset = \<lparr>tx_state_reg = TX_IDLE, hdr_valid_reg = False, tx_beat_count_reg = 0, tx_header_beat0_reg = 0,
     tx_header_beat1_reg = 0, tx_payload_size_reg = 0, tx_payload_bytes_sent_reg = 0\<rparr>"

text \<open>The two ports: data and \<open>tlast\<close>, when \<open>tvalid\<close>.\<close>

definition port0 :: "tx \<Rightarrow> (64 word \<times> bool) option" where
  "port0 t =
     (if tx_state_reg t = TX_RESP
      then Some (if tx_beat_count_reg t = 0 then (tx_header_beat0_reg t, False) else (tx_header_beat1_reg t, True))
      else None)"

definition port1 :: "tx_in \<Rightarrow> tx \<Rightarrow> (64 word \<times> bool) option" where
  "port1 i t =
     (case tx_state_reg t of
        TX_DATA_HDR \<Rightarrow>
          if tx_beat_count_reg t = 0 then Some (tx_header_beat0_reg t, False)
          else if tx_beat_count_reg t = 1 then Some (tx_header_beat1_reg t, False)
          else None
      | TX_DATA \<Rightarrow> if data_in_tvalid i then Some (data_in_tdata i, data_in_tlast i) else None
      | _ \<Rightarrow> None)"

text \<open>The beat each port hands over in this cycle.\<close>

definition sent0 :: "tx_in \<Rightarrow> tx \<Rightarrow> (64 word \<times> bool) list" where
  "sent0 i t = (if s0_tready i then case port0 t of None \<Rightarrow> [] | Some b \<Rightarrow> [b] else [])"

definition sent1 :: "tx_in \<Rightarrow> tx \<Rightarrow> (64 word \<times> bool) list" where
  "sent1 i t = (if s1_tready i then case port1 i t of None \<Rightarrow> [] | Some b \<Rightarrow> [b] else [])"

definition tx_resp_done_out :: "tx_in \<Rightarrow> tx \<Rightarrow> bool" where
  "tx_resp_done_out i t \<longleftrightarrow> tx_state_reg t = TX_RESP \<and> s0_tready i \<and> (case port0 t of None \<Rightarrow> False | Some b \<Rightarrow> snd b)"

definition tx_pkt_start :: "tx_in \<Rightarrow> tx \<Rightarrow> bool" where
  "tx_pkt_start i t \<longleftrightarrow> tx_state_reg t = TX_IDLE \<and> \<not> resp_ongoing i \<and> \<not> retx_found i
     \<and> tx_ready_in i \<and> window_ok i \<and> sch_ready_in i"

definition data_in_tready :: "tx_in \<Rightarrow> tx \<Rightarrow> bool" where
  "data_in_tready i t \<longleftrightarrow> tx_state_reg t = TX_DATA \<and> s1_tready i"

definition tx_udp_length :: "tx \<Rightarrow> 16 word" where
  "tx_udp_length t = (if tx_state_reg t \<in> {TX_DATA_HDR, TX_DATA} then 24 + tx_payload_size_reg t else 24)"

definition starts_data :: "tx_in \<Rightarrow> bool" where
  "starts_data i \<longleftrightarrow> retx_found i \<or> tx_ready_in i \<and> window_ok i \<and> sch_ready_in i"

definition hdr_valid_ff :: "tx_in \<Rightarrow> tx \<Rightarrow> bool" where
  "hdr_valid_ff i t =
     (case tx_state_reg t of
        TX_IDLE \<Rightarrow> resp_ongoing i \<or> starts_data i \<or> hdr_valid_reg t
      | TX_RESP \<Rightarrow> hdr_valid_reg t \<and> \<not> tx_udp_hdr_ready i
      | TX_DATA_HDR \<Rightarrow> hdr_valid_reg t \<and> \<not> tx_udp_hdr_ready i
      | TX_DATA \<Rightarrow> False)"

definition tx_fsm :: "tx_in \<Rightarrow> tx \<Rightarrow> tx" where
  "tx_fsm i t =
     (case tx_state_reg t of
        TX_IDLE \<Rightarrow>
          let t1 = t\<lparr>tx_beat_count_reg := 0, tx_payload_bytes_sent_reg := 0\<rparr>; r = resp_in i
          in if resp_ongoing i
             then t1\<lparr>tx_state_reg := TX_RESP,
                     tx_header_beat0_reg := beat0 (resp_cmd_id r) (resp_status r)
                       (if resp_is_cpl r then TYPE_CMD_CPL else TYPE_CMD_ACK),
                     tx_header_beat1_reg := beat1 0 (if resp_is_cpl r then resp_data r else 0) (resp_opcode r)\<rparr>
             else if starts_data i
             then t1\<lparr>tx_state_reg := TX_DATA_HDR, tx_payload_size_reg := rd_pkt_size i,
                     tx_header_beat0_reg := beat0 (rd_pkt_seq i) 0x00 TYPE_DATA,
                     tx_header_beat1_reg := beat1 0 0 (rd_pkt_size i)\<rparr>
             else t1
      | TX_RESP \<Rightarrow>
          (case sent0 i t of
             [] \<Rightarrow> t
           | b # _ \<Rightarrow> let t1 = t\<lparr>tx_beat_count_reg := tx_beat_count_reg t + 1\<rparr>
                       in if snd b then t1\<lparr>tx_state_reg := TX_IDLE\<rparr> else t1)
      | TX_DATA_HDR \<Rightarrow>
          (if sent1 i t = [] then t
           else let t1 = t\<lparr>tx_beat_count_reg := tx_beat_count_reg t + 1\<rparr>
                in if tx_beat_count_reg t \<ge> 1 then t1\<lparr>tx_state_reg := TX_DATA\<rparr> else t1)
      | TX_DATA \<Rightarrow>
          if data_in_tvalid i \<and> s1_tready i
          then (if data_in_tlast i
                then t\<lparr>tx_payload_size_reg := tx_payload_bytes_sent_reg t + 8, tx_state_reg := TX_IDLE\<rparr>
                else t\<lparr>tx_payload_bytes_sent_reg := tx_payload_bytes_sent_reg t + 8\<rparr>)
          else t)"

definition tx_ff :: "tx_in \<Rightarrow> tx \<Rightarrow> tx" where
  "tx_ff i t = (if cmd_start_req i then tx_reset else (tx_fsm i t)\<lparr>hdr_valid_reg := hdr_valid_ff i t\<rparr>)"

section \<open>What leaves the ports\<close>

text \<open>A run until the machine is idle again: the beats on the two ports.\<close>

fun tx_frame :: "tx_in list \<Rightarrow> tx \<Rightarrow> (64 word \<times> bool) list \<times> (64 word \<times> bool) list \<times> tx" where
  "tx_frame [] t = ([], [], t)"
| "tx_frame (i # ins) t =
     (if tx_state_reg (tx_ff i t) = TX_IDLE then (sent0 i t, sent1 i t, tx_ff i t)
      else case tx_frame ins (tx_ff i t) of (a, b, t') \<Rightarrow> (sent0 i t @ a, sent1 i t @ b, t'))"

text \<open>The payload beats the machine takes from the scheduler in the same run.\<close>

fun tx_taken :: "tx_in list \<Rightarrow> tx \<Rightarrow> 64 word list" where
  "tx_taken [] t = []"
| "tx_taken (i # ins) t =
     (if data_in_tready i t \<and> data_in_tvalid i then [data_in_tdata i] else [])
     @ (if tx_state_reg (tx_ff i t) = TX_IDLE then [] else tx_taken ins (tx_ff i t))"

abbreviation no_start :: "tx_in list \<Rightarrow> bool" where
  "no_start ins \<equiv> list_all (\<lambda>i. \<not> cmd_start_req i) ins"

lemmas tx_defs = tx_ff_def tx_fsm_def sent0_def sent1_def port0_def port1_def data_in_tready_def

lemma tx_frame_resp:
  assumes "tx_state_reg t = TX_RESP" and "no_start ins" and "tx_frame ins t = (a, b, t')" and "tx_state_reg t' = TX_IDLE"
    and "tx_beat_count_reg t \<in> {0, 1}"
  shows "b = [] \<and> a = (if tx_beat_count_reg t = 0 then [(tx_header_beat0_reg t, False)] else [])
    @ [(tx_header_beat1_reg t, True)]"
  using assms
proof (induction ins arbitrary: t a b)
  case (Cons i ins)
  let ?t = "tx_ff i t"
  have start: "\<not> cmd_start_req i" "no_start ins" using Cons.prems(2) by simp_all
  show ?case
  proof (cases "s0_tready i \<and> tx_beat_count_reg t \<noteq> 0")
    case True
    with Cons.prems start show ?thesis by (auto simp: tx_defs)
  next
    case False
    then have st: "tx_state_reg ?t = TX_RESP" "tx_header_beat0_reg ?t = tx_header_beat0_reg t"
        "tx_header_beat1_reg ?t = tx_header_beat1_reg t"
        "tx_beat_count_reg ?t = (if s0_tready i then 1 else tx_beat_count_reg t)"
        "sent0 i t = (if s0_tready i then [(tx_header_beat0_reg t, False)] else [])" "sent1 i t = []"
      using Cons.prems(1) start(1) by (auto simp: tx_defs)
    obtain a' b' where f: "tx_frame ins ?t = (a', b', t')"
      using Cons.prems(3) st(1) by (auto split: prod.splits)
    have "b' = [] \<and> a' = (if tx_beat_count_reg ?t = 0 then [(tx_header_beat0_reg ?t, False)] else [])
        @ [(tx_header_beat1_reg ?t, True)]"
      using Cons.prems(4,5) st(1,4) start(2) f by (intro Cons.IH) auto
    with Cons.prems(3) st f False show ?thesis by (auto split: if_splits)
  qed
qed simp

lemma tx_frame_data:
  assumes "tx_state_reg t = TX_DATA" and "no_start ins" and "tx_frame ins t = (a, b, t')" and "tx_state_reg t' = TX_IDLE"
  shows "a = [] \<and> tx_taken ins t \<noteq> []
    \<and> b = map (\<lambda>w. (w, False)) (butlast (tx_taken ins t)) @ [(last (tx_taken ins t), True)]"
  using assms
proof (induction ins arbitrary: t a b)
  case (Cons i ins)
  let ?t = "tx_ff i t"
  have start: "\<not> cmd_start_req i" "no_start ins" using Cons.prems(2) by simp_all
  show ?case
  proof (cases "data_in_tvalid i \<and> s1_tready i \<and> data_in_tlast i")
    case True
    with Cons.prems start show ?thesis by (auto simp: tx_defs)
  next
    case False
    then have st: "tx_state_reg ?t = TX_DATA" "sent0 i t = []"
        "sent1 i t = (if data_in_tvalid i \<and> s1_tready i then [(data_in_tdata i, False)] else [])"
      using Cons.prems(1) start(1) by (auto simp: tx_defs)
    obtain a' b' where f: "tx_frame ins ?t = (a', b', t')"
      using Cons.prems(3) st(1) by (auto split: prod.splits)
    note Cons.IH [OF st(1) start(2) f Cons.prems(4)]
    with Cons.prems(1,3) st f show ?thesis by (auto simp: data_in_tready_def)
  qed
qed simp

lemma tx_frame_hdr:
  assumes "tx_state_reg t = TX_DATA_HDR" and "no_start ins" and "tx_frame ins t = (a, b, t')" and "tx_state_reg t' = TX_IDLE"
    and "tx_beat_count_reg t \<in> {0, 1}"
  shows "a = [] \<and> tx_taken ins t \<noteq> []
    \<and> b = (if tx_beat_count_reg t = 0 then [(tx_header_beat0_reg t, False)] else []) @ [(tx_header_beat1_reg t, False)]
        @ map (\<lambda>w. (w, False)) (butlast (tx_taken ins t)) @ [(last (tx_taken ins t), True)]"
  using assms
proof (induction ins arbitrary: t a b)
  case (Cons i ins)
  let ?t = "tx_ff i t"
  have start: "\<not> cmd_start_req i" "no_start ins" using Cons.prems(2) by simp_all
  have st: "tx_state_reg ?t \<noteq> TX_IDLE" "sent0 i t = []" "\<not> data_in_tready i t"
    using Cons.prems(1,5) start(1) by (auto simp: tx_defs)
  obtain a' b' where f: "tx_frame ins ?t = (a', b', t')"
    using Cons.prems(3) st(1) by (auto split: prod.splits)
  have ab: "a = a'" "b = sent1 i t @ b'" "tx_taken (i # ins) t = tx_taken ins ?t"
    using Cons.prems(3) st f by auto
  show ?case
  proof (cases "s1_tready i \<and> tx_beat_count_reg t = 1")
    case True
    with Cons.prems(1,5) start(1) have s: "tx_state_reg ?t = TX_DATA" "sent1 i t = [(tx_header_beat1_reg t, False)]"
      by (auto simp: tx_defs)
    note tx_frame_data [OF s(1) start(2) f Cons.prems(4)]
    with True ab s(2) show ?thesis by simp
  next
    case False
    with Cons.prems(1,5) start(1) have s: "tx_state_reg ?t = TX_DATA_HDR"
        "sent1 i t = (if s1_tready i then [(tx_header_beat0_reg t, False)] else [])"
        "tx_beat_count_reg ?t = (if s1_tready i then 1 else tx_beat_count_reg t)"
        "tx_header_beat0_reg ?t = tx_header_beat0_reg t" "tx_header_beat1_reg ?t = tx_header_beat1_reg t"
      by (auto simp: tx_defs)
    have "tx_beat_count_reg ?t \<in> {0, 1}" using Cons.prems(5) s(3) by auto
    note Cons.IH [OF s(1) start(2) f Cons.prems(4) this]
    with False Cons.prems(5) ab s show ?thesis by auto
  qed
qed simp

text \<open>C12: A frame of the transmitter, under any back-pressure on its ports and any gaps in the payload
  stream: when the machine leaves the idle state and is idle again at the end, then either it had a
  response to send and the beats on the response port are exactly the 16 bytes of that response,
  with \<open>tlast\<close> on the second one and nothing on the data port; or the beats on the data port are the
  header with the number and size given at the start, followed by the payload beats it took from the
  scheduler, in order, each once, with \<open>tlast\<close> on the last one only.\<close>

theorem tx_frames:
  assumes "tx_state_reg t = TX_IDLE" and "no_start (i # ins)" and "resp_ongoing i \<or> starts_data i"
    and "tx_frame (i # ins) t = (a, b, t')" and "tx_state_reg t' = TX_IDLE"
  shows "if resp_ongoing i
    then beats_bytes (map fst a) = fpga_response (resp_in i) \<and> map snd a = [False, True] \<and> b = []
    else a = [] \<and> tx_taken (i # ins) t \<noteq> []
      \<and> beats_bytes (map fst b) = fpga_data_packet (rd_pkt_seq i) (rd_pkt_size i) (beats_bytes (tx_taken (i # ins) t))
      \<and> map snd b = replicate (length (tx_taken (i # ins) t) + 1) False @ [True]"
proof -
  let ?t = "tx_ff i t"
  have start: "\<not> cmd_start_req i" "no_start ins" using assms(2) by simp_all
  have st: "tx_state_reg ?t \<noteq> TX_IDLE" "sent0 i t = []" "sent1 i t = []" "\<not> data_in_tready i t" "tx_beat_count_reg ?t = 0"
    using assms(1,3) start(1) by (auto simp: tx_defs Let_def)
  then have f: "tx_frame ins ?t = (a, b, t')" and tk: "tx_taken (i # ins) t = tx_taken ins ?t"
    using assms(4) by (auto split: prod.splits)
  show ?thesis
  proof (cases "resp_ongoing i")
    case True
    then have r: "tx_state_reg ?t = TX_RESP"
        "tx_header_beat0_reg ?t = beat0 (resp_cmd_id (resp_in i)) (resp_status (resp_in i)) (if resp_is_cpl (resp_in i) then TYPE_CMD_CPL else TYPE_CMD_ACK)"
        "tx_header_beat1_reg ?t = beat1 0 (if resp_is_cpl (resp_in i) then resp_data (resp_in i) else 0) (resp_opcode (resp_in i))"
      using assms(1) start(1) by (simp_all add: tx_defs Let_def)
    show ?thesis
      using tx_frame_resp [OF r(1) start(2) f assms(5)] st(5) r(2,3) True
      by (simp add: beats_bytes_def fpga_response_def)
  next
    case False
    then have r: "tx_state_reg ?t = TX_DATA_HDR" "tx_header_beat0_reg ?t = beat0 (rd_pkt_seq i) 0x00 TYPE_DATA"
        "tx_header_beat1_reg ?t = beat1 0 0 (rd_pkt_size i)"
      using assms(1,3) start(1) by (simp_all add: tx_defs Let_def)
    note h = tx_frame_hdr [OF r(1) start(2) f assms(5)]
    define pl where "pl = tx_taken ins ?t"
    have pl: "pl \<noteq> []" "a = []" "b = [(beat0 (rd_pkt_seq i) 0x00 TYPE_DATA, False), (beat1 0 0 (rd_pkt_size i), False)]
        @ map (\<lambda>w. (w, False)) (butlast pl) @ [(last pl, True)]"
      using h st(5) r(2,3) by (simp_all add: pl_def)
    have "map fst b = [beat0 (rd_pkt_seq i) 0x00 TYPE_DATA, beat1 0 0 (rd_pkt_size i)] @ pl"
      using pl(1) by (simp add: pl(3) comp_def)
    moreover have "map snd b = replicate (length pl + 1) False @ [True]"
    proof -
      obtain n where n: "length pl = Suc n" using pl(1) by (cases pl) auto
      then show ?thesis
        by (simp add: pl(3) comp_def map_replicate_const replicate_append_same)
    qed
    ultimately show ?thesis
      unfolding tk pl_def [symmetric] using False pl(1,2) by (simp add: fpga_data_packet_def beats_bytes_def)
  qed
qed

section \<open>Frames end\<close>

lemma tx_frame_resp_ends:
  "tx_state_reg t = TX_RESP \<Longrightarrow> no_start ins \<Longrightarrow>
   (if tx_beat_count_reg t = 0 then 2 else 1) \<le> length (filter s0_tready ins) \<Longrightarrow>
   tx_state_reg (snd (snd (tx_frame ins t))) = TX_IDLE"
proof (induction ins arbitrary: t)
  case (Cons i ins)
  show ?case
  proof (cases "tx_state_reg (tx_ff i t) = TX_IDLE")
    case False
    have "tx_state_reg (tx_ff i t) = TX_RESP"
        "(if tx_beat_count_reg (tx_ff i t) = 0 then 2 else 1) \<le> length (filter s0_tready ins)"
      using Cons.prems False by (auto simp: tx_defs split: if_splits)
    with Cons.IH [of "tx_ff i t"] Cons.prems(2) False show ?thesis by (simp add: split_beta)
  qed simp
qed (simp split: if_splits)

lemma tx_frame_data_ends:
  "tx_state_reg t = TX_DATA \<Longrightarrow> no_start ins \<Longrightarrow>
   \<exists>i \<in> set ins. s1_tready i \<and> data_in_tvalid i \<and> data_in_tlast i \<Longrightarrow>
   tx_state_reg (snd (snd (tx_frame ins t))) = TX_IDLE"
proof (induction ins arbitrary: t)
  case (Cons i ins)
  show ?case
  proof (cases "tx_state_reg (tx_ff i t) = TX_IDLE")
    case False
    have "tx_state_reg (tx_ff i t) = TX_DATA" "\<exists>i \<in> set ins. s1_tready i \<and> data_in_tvalid i \<and> data_in_tlast i"
      using Cons.prems False by (auto simp: tx_defs split: if_splits)
    with Cons.IH [of "tx_ff i t"] Cons.prems(2) False show ?thesis by (simp add: split_beta)
  qed simp
qed simp

lemma tx_frame_hdr_ends:
  "tx_state_reg t = TX_DATA_HDR \<Longrightarrow> tx_beat_count_reg t \<in> {0, 1} \<Longrightarrow> no_start (ins @ ins') \<Longrightarrow>
   (if tx_beat_count_reg t = 0 then 2 else 1) \<le> length (filter s1_tready ins) \<Longrightarrow>
   \<exists>i \<in> set ins'. s1_tready i \<and> data_in_tvalid i \<and> data_in_tlast i \<Longrightarrow>
   tx_state_reg (snd (snd (tx_frame (ins @ ins') t))) = TX_IDLE"
proof (induction ins arbitrary: t)
  case (Cons i ins)
  show ?case
  proof (cases "tx_state_reg (tx_ff i t) = TX_DATA")
    case True
    with tx_frame_data_ends [OF True, of "ins @ ins'"] Cons.prems(3,5) show ?thesis by (auto simp: split_beta)
  next
    case False
    have "tx_state_reg (tx_ff i t) = TX_DATA_HDR" "tx_beat_count_reg (tx_ff i t) \<in> {0, 1}"
        "(if tx_beat_count_reg (tx_ff i t) = 0 then 2 else 1) \<le> length (filter s1_tready ins)"
      using Cons.prems False by (auto simp: tx_defs split: if_splits)
    with Cons.IH [of "tx_ff i t"] Cons.prems(3,5) show ?thesis by (simp add: split_beta)
  qed
qed (simp split: if_splits)

text \<open>C15: A frame ends. A response is over once its port has been ready in two cycles; a data packet is
  over when, after two cycles in which the port took the header, it takes the last beat of the
  payload: the machine is idle again, whatever the other inputs did meanwhile.\<close>

theorem tx_frame_ends:
  assumes "tx_state_reg t = TX_IDLE" and "no_start (i # ins @ ins')"
    and "resp_ongoing i \<and> 2 \<le> length (filter s0_tready ins) \<or> \<not> resp_ongoing i \<and> starts_data i
      \<and> 2 \<le> length (filter s1_tready ins) \<and> (\<exists>j \<in> set ins'. s1_tready j \<and> data_in_tvalid j \<and> data_in_tlast j)"
  shows "tx_state_reg (snd (snd (tx_frame (i # ins @ ins') t))) = TX_IDLE"
proof -
  let ?t = "tx_ff i t"
  have s: "\<not> cmd_start_req i" "no_start (ins @ ins')" using assms(2) by simp_all
  have c: "tx_beat_count_reg ?t = 0" "tx_state_reg ?t \<noteq> TX_IDLE"
    using assms(1,3) s(1) by (auto simp: tx_defs Let_def)
  have "tx_state_reg (snd (snd (tx_frame (ins @ ins') ?t))) = TX_IDLE"
  proof (cases "resp_ongoing i")
    case True
    then have "tx_state_reg ?t = TX_RESP" using assms(1) s(1) by (simp add: tx_defs Let_def)
    then show ?thesis using True assms(3) s(2) c(1) by (intro tx_frame_resp_ends) auto
  next
    case False
    then have "tx_state_reg ?t = TX_DATA_HDR" using assms(1,3) s(1) by (simp add: tx_defs Let_def)
    then show ?thesis using False assms(3) s(2) c(1) by (intro tx_frame_hdr_ends) auto
  qed
  with c(2) show ?thesis by (simp add: split_beta)
qed

section \<open>Witnesses\<close>

definition tx_no_in :: tx_in where
  "tx_no_in = \<lparr>data_in_tdata = 0, data_in_tkeep = 0, data_in_tvalid = False, data_in_tlast = False, tx_ready_in = False,
     sch_ready_in = False, retx_found = False, rd_pkt_size = 0, rd_pkt_seq = 0, tx_udp_hdr_ready = False,
     s0_tready = False, s1_tready = False, resp_in = no_resp, resp_ongoing = False, window_ok = False, cmd_start_req = False\<rparr>"

definition data_trace :: "tx_in list" where
  "data_trace = [tx_no_in\<lparr>tx_ready_in := True, window_ok := True, sch_ready_in := True, rd_pkt_seq := 5, rd_pkt_size := 16\<rparr>,
     tx_no_in\<lparr>s1_tready := True\<rparr>, tx_no_in, tx_no_in\<lparr>s1_tready := True\<rparr>,
     tx_no_in\<lparr>s1_tready := True, data_in_tvalid := True, data_in_tdata := 11\<rparr>, tx_no_in\<lparr>data_in_tvalid := True, data_in_tdata := 22\<rparr>,
     tx_no_in\<lparr>s1_tready := True, data_in_tvalid := True, data_in_tdata := 22, data_in_tlast := True\<rparr>]"

theorem tx_frames_witness:
  "beats_bytes (map fst (fst (snd (tx_frame data_trace tx_reset)))) = fpga_data_packet 5 16 (beats_bytes [11, 22])"
proof -
  obtain a b t' where f: "tx_frame data_trace tx_reset = (a, b, t')" by (metis prod_cases3)
  have "tx_state_reg (snd (snd (tx_frame data_trace tx_reset))) = TX_IDLE \<and> no_start data_trace
      \<and> starts_data (hd data_trace) \<and> \<not> resp_ongoing (hd data_trace) \<and> tx_taken data_trace tx_reset = [11, 22]
      \<and> rd_pkt_seq (hd data_trace) = 5 \<and> rd_pkt_size (hd data_trace) = 16" by code_simp
  then have c: "tx_state_reg t' = TX_IDLE" "no_start (hd data_trace # tl data_trace)" "resp_ongoing (hd data_trace) \<or> starts_data (hd data_trace)"
      "\<not> resp_ongoing (hd data_trace)" "tx_taken (hd data_trace # tl data_trace) tx_reset = [11, 22]"
      "rd_pkt_seq (hd data_trace) = 5" "rd_pkt_size (hd data_trace) = 16" "tx_frame (hd data_trace # tl data_trace) tx_reset = (a, b, t')"
    using f by (simp_all add: data_trace_def)
  have "tx_state_reg tx_reset = TX_IDLE" by (simp add: tx_reset_def)
  from tx_frames [OF this c(2,3,8,1)] c(4-7) f show ?thesis by simp
qed

theorem tx_frame_ends_witness:
  "tx_state_reg (snd (snd (tx_frame data_trace tx_reset))) = TX_IDLE"
proof -
  define i ins ins' where "i = hd data_trace" and "ins = take 3 (tl data_trace)" and "ins' = drop 3 (tl data_trace)"
  have "tx_state_reg (snd (snd (tx_frame (i # ins @ ins') tx_reset))) = TX_IDLE"
  proof (rule tx_frame_ends)
    show "tx_state_reg tx_reset = TX_IDLE" by (simp add: tx_reset_def)
    show "no_start (i # ins @ ins')" unfolding i_def ins_def ins'_def by code_simp
    show "resp_ongoing i \<and> 2 \<le> length (filter s0_tready ins) \<or> \<not> resp_ongoing i \<and> starts_data i
      \<and> 2 \<le> length (filter s1_tready ins) \<and> (\<exists>j \<in> set ins'. s1_tready j \<and> data_in_tvalid j \<and> data_in_tlast j)"
      unfolding i_def ins_def ins'_def by code_simp
  qed
  moreover have "i # ins @ ins' = data_trace" by (simp add: i_def ins_def ins'_def data_trace_def)
  ultimately show ?thesis by simp
qed

end
