(* ===== verification/Rtl_Sched.thy ===== *)
theory Rtl_Sched
  imports Prelude
begin

text \<open>
  The transmit scheduler of the FPGA clock by clock (\<open>rtl/ludp_tx_scheduler.sv\<close>): the path that
  packs the beats of a packet into 512-bit words, the block table with its states, the scheduling of
  live packets and retransmissions, and the path that unpacks words into beats. A 512-bit word is a
  list of eight lanes. The DMA engine and the memory behind it are inputs.
\<close>

section \<open>Registers\<close>

abbreviation NUM_BLOCKS :: nat where "NUM_BLOCKS \<equiv> 3"
abbreviation RATIO :: nat where "RATIO \<equiv> 8"

datatype blk_state_t = BLK_EMPTY | BLK_FILL | BLK_READY | BLK_SENT
datatype wr_state_t = WR_IDLE | WR_PACK | WR_FINISH
datatype rd_state_t = RD_IDLE | RD_DESC | RD_DATA
datatype sch_state_t = SCH_IDLE | SCH_READING

type_synonym lanes = "64 word list"

record dma_desc =
  axi_addr :: "32 word"
  ram_addr :: "16 word"
  desc_len :: "16 word"
  desc_tag :: nat

text \<open>The write path.\<close>

record wr_path =
  wr_state_reg :: wr_state_t
  wr_pack_idx_reg :: nat
  wr_pack_data_reg :: lanes
  wr_pack_strb_reg :: "8 word list"
  wr_pack_last_reg :: bool
  wr_done_pulse :: bool
  wr_dma_desc_pending :: "bool list"
  wr_dma_desc_pending_data :: "dma_desc list"

text \<open>The read path.\<close>

record rd_path =
  rd_state_reg :: rd_state_t
  rd_axis_total_beats_reg :: "16 word"
  rd_axis_beat_count_reg :: "16 word"
  rd_clear_pending_reg :: bool
  rd_unpack_data_reg :: lanes
  rd_unpack_idx_reg :: nat
  rd_unpack_valid_reg :: bool
  rd_unpack_last_axi_reg :: bool
  rd_done_pulse :: bool

text \<open>The block table and the scheduling state.\<close>

record sched =
  blk_size :: "16 word list"
  blk_seq :: "32 word list"
  blk_state :: "blk_state_t list"
  dma_wr_idx_reg :: nat
  tx_rd_idx_reg :: nat
  rd_blk_idx_reg :: nat
  retx_pending_reg :: bool
  retx_pending_idx_reg :: nat
  retx_req_d :: bool
  sch_state_reg :: sch_state_t
  sch_is_retx_reg :: bool
  dma_wr_error :: "(4 word \<times> nat) option"   \<comment> \<open>flag, code and tag\<close>
  dma_rd_error :: "(4 word \<times> nat) option"
  wrp :: wr_path
  rdp :: rd_path

record sch_in =
  dma_tdata :: "64 word"
  dma_tkeep :: "8 word"
  dma_tvalid :: bool
  dma_tlast :: bool
  dma_pkt_size :: "16 word"
  sink_desc_ready :: bool
  sink_axis_tready :: bool
  sink_status :: "nat option"                  \<comment> \<open>tag, when valid\<close>
  wr_desc_tready :: bool
  wr_dma_status :: "(4 word \<times> nat) option"    \<comment> \<open>error and tag, when valid\<close>
  rd_desc_tready :: bool
  rd_dma_status :: "(4 word \<times> nat) option"
  dma_rd_tvalid :: bool
  dma_rd_tdata :: lanes
  dma_rd_tlast :: bool

definition wr_reset :: wr_path where
  "wr_reset = \<lparr>wr_state_reg = WR_IDLE, wr_pack_idx_reg = 0, wr_pack_data_reg = replicate RATIO 0,
     wr_pack_strb_reg = replicate RATIO 0, wr_pack_last_reg = False, wr_done_pulse = False,
     wr_dma_desc_pending = replicate NUM_BLOCKS False,
     wr_dma_desc_pending_data = replicate NUM_BLOCKS \<lparr>axi_addr = 0, ram_addr = 0, desc_len = 0, desc_tag = 0\<rparr>\<rparr>"

definition rd_reset :: rd_path where
  "rd_reset = \<lparr>rd_state_reg = RD_IDLE, rd_axis_total_beats_reg = 0, rd_axis_beat_count_reg = 0,
     rd_clear_pending_reg = False, rd_unpack_data_reg = replicate RATIO 0, rd_unpack_idx_reg = 0,
     rd_unpack_valid_reg = False, rd_unpack_last_axi_reg = False, rd_done_pulse = False\<rparr>"

text \<open>What \<open>rst\<close> and \<open>clear\<close> do to the table; the two paths are reset by \<open>rst\<close> alone.\<close>

definition sched_clear :: "sched \<Rightarrow> sched" where
  "sched_clear s = s\<lparr>dma_wr_idx_reg := 0, tx_rd_idx_reg := 0, rd_blk_idx_reg := 0, retx_pending_reg := False,
     retx_pending_idx_reg := 0, retx_req_d := False, sch_state_reg := SCH_IDLE, sch_is_retx_reg := False,
     dma_wr_error := None, dma_rd_error := None, blk_state := replicate NUM_BLOCKS BLK_EMPTY,
     blk_seq := replicate NUM_BLOCKS 0, blk_size := replicate NUM_BLOCKS 0\<rparr>"

definition sched_reset :: sched where
  "sched_reset = \<lparr>blk_size = replicate NUM_BLOCKS 0, blk_seq = replicate NUM_BLOCKS 0,
     blk_state = replicate NUM_BLOCKS BLK_EMPTY, dma_wr_idx_reg = 0, tx_rd_idx_reg = 0, rd_blk_idx_reg = 0,
     retx_pending_reg = False, retx_pending_idx_reg = 0, retx_req_d = False, sch_state_reg = SCH_IDLE,
     sch_is_retx_reg = False, dma_wr_error = None, dma_rd_error = None, wrp = wr_reset, rdp = rd_reset\<rparr>"

section \<open>Combinational signals\<close>

definition blk_next :: "nat \<Rightarrow> nat" where
  "blk_next idx = (if idx = NUM_BLOCKS - 1 then 0 else idx + 1)"

text \<open>The last matching block wins, as in the loop.\<close>

definition retx_lookup :: "32 word \<Rightarrow> sched \<Rightarrow> nat option" where
  "retx_lookup seq s =
     fold (\<lambda>i found. if blk_state s ! i = BLK_SENT \<and> blk_seq s ! i = seq then Some i else found) [0..<NUM_BLOCKS] None"

definition tx_pkt_ready :: "sched \<Rightarrow> bool" where
  "tx_pkt_ready s \<longleftrightarrow> blk_state s ! tx_rd_idx_reg s = BLK_READY"

definition rd_busy :: "sched \<Rightarrow> bool" where
  "rd_busy s \<longleftrightarrow> rd_state_reg (rdp s) \<noteq> RD_IDLE \<or> rd_unpack_valid_reg (rdp s)"

definition sch_ready :: "sched \<Rightarrow> bool" where
  "sch_ready s \<longleftrightarrow> sch_state_reg s = SCH_IDLE \<and> \<not> rd_busy s"

definition sch_target_blk :: "sched \<Rightarrow> nat" where
  "sch_target_blk s = (if retx_pending_reg s then retx_pending_idx_reg s else tx_rd_idx_reg s)"

definition sch_dma_rd_req :: "bool \<Rightarrow> sched \<Rightarrow> bool" where
  "sch_dma_rd_req tx_pkt_start s \<longleftrightarrow> sch_state_reg s = SCH_IDLE \<and> \<not> rd_busy s \<and>
     (retx_pending_reg s \<or> tx_pkt_start \<and> tx_pkt_ready s)"

text \<open>\<open>(size + 7) / 8\<close>; the sum is computed with 32 bits.\<close>

definition beats_of :: "16 word \<Rightarrow> 16 word" where
  "beats_of sz = word_of_int ((uint sz + 7) div 8)"

definition tx_pkt_done :: "sched \<Rightarrow> bool" where
  "tx_pkt_done s \<longleftrightarrow> rd_done_pulse (rdp s) \<and> \<not> sch_is_retx_reg s"

text \<open>The descriptor of a read, offered in state \<open>RD_DESC\<close>.\<close>

definition rd_desc :: "sched \<Rightarrow> dma_desc" where
  "rd_desc s = \<lparr>axi_addr = word_of_nat (sch_target_blk s) * 16384, ram_addr = word_of_nat (sch_target_blk s) * 256,
     desc_len = beats_of (blk_size s ! sch_target_blk s) * 8, desc_tag = sch_target_blk s\<rparr>"

text \<open>The stream to the transmitter.\<close>

definition rd_axis_tdata :: "rd_path \<Rightarrow> 64 word" where
  "rd_axis_tdata r = (if rd_unpack_valid_reg r then rd_unpack_data_reg r ! rd_unpack_idx_reg r else 0)"

definition rd_axis_tlast :: "rd_path \<Rightarrow> bool" where
  "rd_axis_tlast r \<longleftrightarrow> rd_unpack_valid_reg r \<and> rd_unpack_idx_reg r = RATIO - 1 \<and> rd_unpack_last_axi_reg r
     \<and> uint (rd_axis_beat_count_reg r) + 1 \<ge> uint (rd_axis_total_beats_reg r)"

section \<open>The write path\<close>

definition sink_desc_valid :: "sch_in \<Rightarrow> sched \<Rightarrow> bool" where
  "sink_desc_valid i s \<longleftrightarrow> wr_state_reg (wrp s) = WR_IDLE \<and> dma_tvalid i
     \<and> blk_state s ! dma_wr_idx_reg s = BLK_EMPTY \<and> \<not> wr_done_pulse (wrp s)"

definition wr_desc :: "sch_in \<Rightarrow> sched \<Rightarrow> dma_desc" where
  "wr_desc i s = \<lparr>axi_addr = word_of_nat (dma_wr_idx_reg s) * 16384, ram_addr = word_of_nat (dma_wr_idx_reg s) * 256,
     desc_len = beats_of (dma_pkt_size i) * 8, desc_tag = dma_wr_idx_reg s\<rparr>"

definition wr_desc_tvalid :: "sch_in \<Rightarrow> sched \<Rightarrow> bool" where
  "wr_desc_tvalid i s \<longleftrightarrow> (case sink_status i of None \<Rightarrow> False | Some tag \<Rightarrow> wr_dma_desc_pending (wrp s) ! tag)"

definition wr_pack :: "sch_in \<Rightarrow> wr_path \<Rightarrow> wr_path" where
  "wr_pack i w =
     (let k = wr_pack_idx_reg w;
          d = (wr_pack_data_reg w)[k := dma_tdata i];
          b = (wr_pack_strb_reg w)[k := dma_tkeep i]
      in if k = RATIO - 1 \<or> dma_tlast i
         then w\<lparr>wr_pack_data_reg := (if dma_tlast i then map (\<lambda>j. if j > k then 0 else d ! j) [0..<RATIO] else d),
                wr_pack_strb_reg := (if dma_tlast i then map (\<lambda>j. if j > k then 0 else b ! j) [0..<RATIO] else b),
                wr_pack_last_reg := dma_tlast i, wr_pack_idx_reg := 0, wr_state_reg := WR_FINISH\<rparr>
         else w\<lparr>wr_pack_data_reg := d, wr_pack_strb_reg := b, wr_pack_idx_reg := k + 1\<rparr>)"

definition wr_fsm :: "sch_in \<Rightarrow> sched \<Rightarrow> wr_path" where
  "wr_fsm i s =
     (let w = (wrp s)\<lparr>wr_done_pulse := False\<rparr>
      in case wr_state_reg w of
           WR_IDLE \<Rightarrow>
             if sink_desc_valid i s \<and> sink_desc_ready i
             then w\<lparr>wr_pack_idx_reg := 0, wr_pack_data_reg := replicate RATIO 0, wr_pack_strb_reg := replicate RATIO 0,
                    wr_pack_last_reg := False, wr_state_reg := WR_PACK\<rparr>
             else w
         | WR_PACK \<Rightarrow> if dma_tvalid i then wr_pack i w else w
         | WR_FINISH \<Rightarrow>
             if \<not> sink_axis_tready i then w
             else if wr_pack_last_reg w then w\<lparr>wr_done_pulse := True, wr_state_reg := WR_IDLE\<rparr>
             else w\<lparr>wr_pack_data_reg := replicate RATIO 0, wr_pack_strb_reg := replicate RATIO 0, wr_state_reg := WR_PACK\<rparr>)"

definition wr_ff :: "sch_in \<Rightarrow> sched \<Rightarrow> wr_path" where
  "wr_ff i s =
     (let w = wr_fsm i s; n = dma_wr_idx_reg s;
          w1 = (if sink_desc_valid i s \<and> sink_desc_ready i
                then w\<lparr>wr_dma_desc_pending := (wr_dma_desc_pending w)[n := True],
                       wr_dma_desc_pending_data := (wr_dma_desc_pending_data w)[n := wr_desc i s]\<rparr>
                else w)
      in case sink_status i of
           None \<Rightarrow> w1
         | Some tag \<Rightarrow>
             if wr_desc_tvalid i s \<and> wr_desc_tready i
             then w1\<lparr>wr_dma_desc_pending :=
                       (wr_dma_desc_pending w1)[desc_tag (wr_dma_desc_pending_data (wrp s) ! tag) := False]\<rparr>
             else w1)"

section \<open>The read path\<close>

definition rd_unpack :: "bool \<Rightarrow> rd_path \<Rightarrow> rd_path" where
  \<comment> \<open>the transmitter takes a beat\<close>
  "rd_unpack tready r =
     (if rd_unpack_valid_reg r \<and> tready
      then (if rd_unpack_idx_reg r = RATIO - 1 then r\<lparr>rd_unpack_valid_reg := False, rd_unpack_idx_reg := 0\<rparr>
            else r\<lparr>rd_unpack_idx_reg := rd_unpack_idx_reg r + 1\<rparr>)
           \<lparr>rd_axis_beat_count_reg := rd_axis_beat_count_reg r + 1\<rparr>
      else r)"

definition rd_ff :: "bool \<Rightarrow> bool \<Rightarrow> bool \<Rightarrow> sch_in \<Rightarrow> sched \<Rightarrow> rd_path" where
  "rd_ff clear tx_pkt_start tready i s =
     (let r = rdp s;
          taken = rd_unpack_valid_reg r \<and> tready;
          r1 = r\<lparr>rd_done_pulse := False\<rparr>;
          r2 = (if clear \<and> rd_state_reg r \<noteq> RD_IDLE then r1\<lparr>rd_clear_pending_reg := True\<rparr> else r1);
          r3 = rd_unpack tready r2;
          r4 = (case rd_state_reg r of
                  RD_IDLE \<Rightarrow>
                    if sch_dma_rd_req tx_pkt_start s \<and> \<not> rd_unpack_valid_reg r
                    then r3\<lparr>rd_axis_total_beats_reg := beats_of (blk_size s ! sch_target_blk s),
                            rd_axis_beat_count_reg := 0, rd_clear_pending_reg := False, rd_state_reg := RD_DESC\<rparr>
                    else r3
                | RD_DESC \<Rightarrow> if rd_desc_tready i then r3\<lparr>rd_state_reg := RD_DATA\<rparr> else r3
                | RD_DATA \<Rightarrow>
                    if dma_rd_tvalid i \<and> (\<not> rd_unpack_valid_reg r \<or> taken \<and> rd_unpack_idx_reg r = RATIO - 1)
                    then let r5 = r3\<lparr>rd_unpack_data_reg := dma_rd_tdata i, rd_unpack_valid_reg := True,
                                     rd_unpack_idx_reg := 0, rd_unpack_last_axi_reg := dma_rd_tlast i\<rparr>
                         in if \<not> dma_rd_tlast i then r5
                            else if rd_clear_pending_reg r
                            then r5\<lparr>rd_clear_pending_reg := False, rd_unpack_valid_reg := False, rd_state_reg := RD_IDLE\<rparr>
                            else r5\<lparr>rd_state_reg := RD_IDLE\<rparr>
                    else r3)
      in if taken \<and> rd_unpack_idx_reg r = RATIO - 1
            \<and> uint (rd_axis_beat_count_reg r) + 1 \<ge> uint (rd_axis_total_beats_reg r)
         then r4\<lparr>rd_done_pulse := \<not> rd_clear_pending_reg r, rd_clear_pending_reg := False\<rparr>
         else r4)"

section \<open>The block table and the scheduler\<close>

definition blk_next_state :: "sch_in \<Rightarrow> sched \<Rightarrow> blk_state_t list" where
  "blk_next_state i s =
     (let old = blk_state s;
          b1 = (if wr_done_pulse (wrp s) then old[dma_wr_idx_reg s := BLK_FILL] else old);
          b2 = (case wr_dma_status i of
                  None \<Rightarrow> b1
                | Some (err, tag) \<Rightarrow>
                    if take_bit 3 err = 0 then (if old ! tag = BLK_FILL then b1[tag := BLK_READY] else b1)
                    else b1[tag := BLK_EMPTY])
      in if rd_done_pulse (rdp s) \<and> \<not> sch_is_retx_reg s
         then map (\<lambda>j. if j \<noteq> rd_blk_idx_reg s \<and> old ! j = BLK_SENT
                          \<and> \<not> (retx_pending_reg s \<and> retx_pending_idx_reg s = j)
                       then BLK_EMPTY else (b2[rd_blk_idx_reg s := BLK_SENT]) ! j) [0..<NUM_BLOCKS]
         else b2)"

definition sched_ff :: "32 word option \<Rightarrow> bool \<Rightarrow> 32 word \<Rightarrow> sch_in \<Rightarrow> sched \<Rightarrow> sched" where
  \<comment> \<open>the request for a retransmission, \<open>tx_pkt_start\<close> and \<open>tx_pkt_seq\<close> come from outside\<close>
  "sched_ff retx tx_pkt_start tx_pkt_seq i s =
     (let lookup = (case retx of None \<Rightarrow> None | Some seq \<Rightarrow> if retx_req_d s then None else retx_lookup seq s);
          s1 = s\<lparr>retx_req_d := (retx \<noteq> None)\<rparr>;
          s2 = (case lookup of
                  None \<Rightarrow> s1
                | Some k \<Rightarrow> if retx_pending_reg s then s1
                            else s1\<lparr>retx_pending_reg := True, retx_pending_idx_reg := k\<rparr>);
          s3 = (if wr_done_pulse (wrp s)
                then s2\<lparr>blk_size := (blk_size s)[dma_wr_idx_reg s := dma_pkt_size i],
                        dma_wr_idx_reg := blk_next (dma_wr_idx_reg s)\<rparr> else s2);
          s4 = (case wr_dma_status i of
                  None \<Rightarrow> s3
                | Some (err, tag) \<Rightarrow> if take_bit 3 err = 0 then s3 else s3\<lparr>dma_wr_error := Some (take_bit 3 err, tag)\<rparr>);
          s5 = (case rd_dma_status i of
                  None \<Rightarrow> s4
                | Some (err, tag) \<Rightarrow> if take_bit 3 err = 0 then s4 else s4\<lparr>dma_rd_error := Some (take_bit 3 err, tag)\<rparr>);
          s6 = (if tx_pkt_start \<and> tx_pkt_ready s then s5\<lparr>blk_seq := (blk_seq s)[tx_rd_idx_reg s := tx_pkt_seq]\<rparr> else s5);
          s7 = (if rd_done_pulse (rdp s) \<and> \<not> sch_is_retx_reg s then s6\<lparr>tx_rd_idx_reg := blk_next (tx_rd_idx_reg s)\<rparr> else s6);
          s8 = s7\<lparr>blk_state := blk_next_state i s\<rparr>
      in case sch_state_reg s of
           SCH_IDLE \<Rightarrow>
             if retx_pending_reg s \<and> \<not> rd_busy s
             then s8\<lparr>sch_state_reg := SCH_READING, sch_is_retx_reg := True, rd_blk_idx_reg := retx_pending_idx_reg s,
                     retx_pending_reg := False\<rparr>
             else if tx_pkt_start \<and> tx_pkt_ready s \<and> \<not> rd_busy s
             then s8\<lparr>sch_state_reg := SCH_READING, sch_is_retx_reg := False, rd_blk_idx_reg := tx_rd_idx_reg s\<rparr>
             else s8
         | SCH_READING \<Rightarrow> if rd_done_pulse (rdp s) then s8\<lparr>sch_state_reg := SCH_IDLE\<rparr> else s8)"

text \<open>One clock cycle without \<open>rst\<close>.\<close>

definition sched_cycle :: "bool \<Rightarrow> 32 word option \<Rightarrow> bool \<Rightarrow> 32 word \<Rightarrow> bool \<Rightarrow> sch_in \<Rightarrow> sched \<Rightarrow> sched" where
  "sched_cycle clear retx tx_pkt_start tx_pkt_seq tready i s =
     (if clear then sched_clear s else sched_ff retx tx_pkt_start tx_pkt_seq i s)
       \<lparr>wrp := wr_ff i s, rdp := rd_ff clear tx_pkt_start tready i s\<rparr>"

section \<open>First-in first-out stages\<close>

text \<open>What an observation of single cycles yields over a run.\<close>

fun over_run :: "('c \<Rightarrow> 's \<Rightarrow> 's) \<Rightarrow> ('c \<Rightarrow> 's \<Rightarrow> 'b list) \<Rightarrow> 'c list \<Rightarrow> 's \<Rightarrow> 'b list" where
  "over_run step f [] s = []"
| "over_run step f (c # cs) s = f c s @ over_run step f cs (step c s)"

lemma concat_over_run: "concat (over_run step f cs s) = over_run step (\<lambda>c s. concat (f c s)) cs s"
  by (induction cs arbitrary: s) simp_all

text \<open>A clocked stage that holds a list of beats: what leaves it followed by what it holds afterwards
  is what it held followed by what enters it.\<close>

locale fifo_stage =
  fixes step :: "'c \<Rightarrow> 's \<Rightarrow> 's" and ok :: "'s \<Rightarrow> bool" and allowed :: "'c \<Rightarrow> bool"
    and inp :: "'c \<Rightarrow> 's \<Rightarrow> 'b list" and out :: "'c \<Rightarrow> 's \<Rightarrow> 'b list" and content :: "'s \<Rightarrow> 'b list"
  assumes keeps: "ok s \<Longrightarrow> allowed c \<Longrightarrow> ok (step c s)"
    and passes: "ok s \<Longrightarrow> allowed c \<Longrightarrow> out c s @ content (step c s) = content s @ inp c s"
begin

lemma run_passes:
  "ok s \<Longrightarrow> list_all allowed cs \<Longrightarrow>
    over_run step out cs s @ content (fold step cs s) = content s @ over_run step inp cs s"
proof (induction cs arbitrary: s)
  case (Cons c cs)
  then have c: "allowed c" "list_all allowed cs" "ok (step c s)" by (simp_all add: keeps)
  have "out c s @ over_run step out cs (step c s) @ content (fold step cs (step c s)) =
      out c s @ content (step c s) @ over_run step inp cs (step c s)"
    using Cons.IH [OF c(3,2)] by simp
  then show ?case using passes [OF Cons.prems(1) c(1)] by (metis append.assoc fold_simps(2) over_run.simps(2))
qed simp

lemma run_drained:
  "ok s \<Longrightarrow> list_all allowed cs \<Longrightarrow> content s = [] \<Longrightarrow> content (fold step cs s) = [] \<Longrightarrow>
    over_run step out cs s = over_run step inp cs s"
  using run_passes [of s cs] by simp

end

section \<open>The two paths as queues\<close>

text \<open>The inputs of a cycle from the rest of the engine, and a run.\<close>

record sch_ctl =
  clear_in :: bool
  retx_in :: "32 word option"
  start_in :: bool
  seq_in :: "32 word"
  rd_tready :: bool
  sch_ext :: sch_in

definition sched_step :: "sch_ctl \<Rightarrow> sched \<Rightarrow> sched" where
  "sched_step c s = sched_cycle (clear_in c) (retx_in c) (start_in c) (seq_in c) (rd_tready c) (sch_ext c) s"

text \<open>Beats accepted from the data source, words handed to the sink.\<close>

definition wr_accepted :: "sch_ctl \<Rightarrow> sched \<Rightarrow> 64 word list" where
  "wr_accepted c s = (if wr_state_reg (wrp s) = WR_PACK \<and> dma_tvalid (sch_ext c) then [dma_tdata (sch_ext c)] else [])"

definition wr_padding :: "sch_ctl \<Rightarrow> sched \<Rightarrow> 64 word list" where
  "wr_padding c s = (if wr_state_reg (wrp s) = WR_PACK \<and> dma_tvalid (sch_ext c) \<and> dma_tlast (sch_ext c)
     then replicate (RATIO - 1 - wr_pack_idx_reg (wrp s)) 0 else [])"

definition wr_emitted :: "sch_ctl \<Rightarrow> sched \<Rightarrow> lanes list" where
  "wr_emitted c s = (if wr_state_reg (wrp s) = WR_FINISH \<and> sink_axis_tready (sch_ext c) then [wr_pack_data_reg (wrp s)] else [])"

definition wr_buffer :: "wr_path \<Rightarrow> 64 word list" where
  "wr_buffer w = (case wr_state_reg w of WR_IDLE \<Rightarrow> [] | WR_PACK \<Rightarrow> take (wr_pack_idx_reg w) (wr_pack_data_reg w)
     | WR_FINISH \<Rightarrow> wr_pack_data_reg w)"

definition wr_padded :: "sch_ctl \<Rightarrow> sched \<Rightarrow> 64 word list" where
  "wr_padded c s = wr_accepted c s @ wr_padding c s"

text \<open>Words taken from the DMA engine, beats handed to the transmitter.\<close>

definition rd_loaded :: "sch_ctl \<Rightarrow> sched \<Rightarrow> lanes list" where
  "rd_loaded c s = (let r = rdp s in
     if rd_state_reg r = RD_DATA \<and> dma_rd_tvalid (sch_ext c)
        \<and> (\<not> rd_unpack_valid_reg r \<or> rd_tready c \<and> rd_unpack_idx_reg r = RATIO - 1)
     then [dma_rd_tdata (sch_ext c)] else [])"

definition rd_taken :: "sch_ctl \<Rightarrow> sched \<Rightarrow> 64 word list" where
  "rd_taken c s = (if rd_unpack_valid_reg (rdp s) \<and> rd_tready c then [rd_axis_tdata (rdp s)] else [])"

definition rd_buffer :: "rd_path \<Rightarrow> 64 word list" where
  "rd_buffer r = (if rd_unpack_valid_reg r then drop (rd_unpack_idx_reg r) (rd_unpack_data_reg r) else [])"

definition paths_ok :: "sched \<Rightarrow> bool" where
  "paths_ok s \<longleftrightarrow> wr_pack_idx_reg (wrp s) < RATIO \<and> length (wr_pack_data_reg (wrp s)) = RATIO
     \<and> (wr_state_reg (wrp s) \<noteq> WR_PACK \<longrightarrow> wr_pack_idx_reg (wrp s) = 0)
     \<and> rd_unpack_idx_reg (rdp s) < RATIO \<and> length (rd_unpack_data_reg (rdp s)) = RATIO \<and> \<not> rd_clear_pending_reg (rdp s)"

abbreviation undisturbed :: "sch_ctl \<Rightarrow> bool" where
  "undisturbed c \<equiv> \<not> clear_in c \<and> length (dma_rd_tdata (sch_ext c)) = RATIO"

lemma sched_step_paths:
  "wrp (sched_step c s) = wr_ff (sch_ext c) s"
  "rdp (sched_step c s) = rd_ff (clear_in c) (start_in c) (rd_tready c) (sch_ext c) s"
  by (simp_all add: sched_step_def sched_cycle_def)

lemma wr_ff_fields:
  "wr_state_reg (wr_ff i s) = wr_state_reg (wr_fsm i s)" "wr_pack_idx_reg (wr_ff i s) = wr_pack_idx_reg (wr_fsm i s)"
  "wr_pack_data_reg (wr_ff i s) = wr_pack_data_reg (wr_fsm i s)"
  by (simp_all add: wr_ff_def Let_def split: option.split)

lemma pack_last_lanes:
  assumes "length d = 8" and "k < 8"
  shows "map (\<lambda>j. if j > k then 0 else (d[k := x]) ! j) [0..<8] = take k d @ x # replicate (7 - k) (0 :: 64 word)"
proof (rule nth_equalityI)
  fix j assume "j < length (map (\<lambda>j. if j > k then 0 else (d[k := x]) ! j) [0..<8])"
  then have "j < 8" by simp
  then show "map (\<lambda>j. if j > k then 0 else (d[k := x]) ! j) [0..<8] ! j = (take k d @ x # replicate (7 - k) 0) ! j"
    using assms by (cases "j < k"; cases "j = k") (auto simp: nth_append nth_Cons')
qed (use assms in simp)

lemma wr_step:
  assumes "paths_ok s"
  shows "concat (wr_emitted c s) @ wr_buffer (wr_ff (sch_ext c) s) = wr_buffer (wrp s) @ wr_accepted c s @ wr_padding c s"
    and "wr_pack_idx_reg (wr_ff (sch_ext c) s) < RATIO \<and> length (wr_pack_data_reg (wr_ff (sch_ext c) s)) = RATIO
      \<and> (wr_state_reg (wr_ff (sch_ext c) s) \<noteq> WR_PACK \<longrightarrow> wr_pack_idx_reg (wr_ff (sch_ext c) s) = 0)"
proof -
  note ok = assms [unfolded paths_ok_def]
  have l: "length (wr_pack_data_reg (wrp s)) = 8" "wr_pack_idx_reg (wrp s) < 8" using ok by simp_all
  note lanes = pack_last_lanes [OF l]
  have full: "wr_pack_idx_reg (wrp s) = 7 \<Longrightarrow> (wr_pack_data_reg (wrp s))[7 := x] = take 7 (wr_pack_data_reg (wrp s)) @ [x]" for x
    using l(1) by (simp add: list_update_beyond upd_conv_take_nth_drop)
  have nxt: "take (Suc k) ((wr_pack_data_reg (wrp s))[k := x]) = take k (wr_pack_data_reg (wrp s)) @ [x]" if "k < 8" for k x
    using that l(1) by (simp add: take_Suc_conv_app_nth)
  show "concat (wr_emitted c s) @ wr_buffer (wr_ff (sch_ext c) s) = wr_buffer (wrp s) @ wr_accepted c s @ wr_padding c s"
    using ok l lanes full nxt
    by (cases "wr_state_reg (wrp s)")
      (auto simp: wr_emitted_def wr_buffer_def wr_accepted_def wr_padding_def wr_ff_fields wr_fsm_def wr_pack_def Let_def)
  show "wr_pack_idx_reg (wr_ff (sch_ext c) s) < RATIO \<and> length (wr_pack_data_reg (wr_ff (sch_ext c) s)) = RATIO
      \<and> (wr_state_reg (wr_ff (sch_ext c) s) \<noteq> WR_PACK \<longrightarrow> wr_pack_idx_reg (wr_ff (sch_ext c) s) = 0)"
    using ok by (cases "wr_state_reg (wrp s)") (auto simp: wr_ff_fields wr_fsm_def wr_pack_def Let_def)
qed

lemma rd_step:
  assumes "paths_ok s" and "undisturbed c"
  shows "rd_taken c s @ rd_buffer (rd_ff False st (rd_tready c) (sch_ext c) s) = rd_buffer (rdp s) @ concat (rd_loaded c s)"
    and "rd_unpack_idx_reg (rd_ff False st (rd_tready c) (sch_ext c) s) < RATIO
      \<and> length (rd_unpack_data_reg (rd_ff False st (rd_tready c) (sch_ext c) s)) = RATIO
      \<and> \<not> rd_clear_pending_reg (rd_ff False st (rd_tready c) (sch_ext c) s)"
proof -
  note ok = assms(1) [unfolded paths_ok_def]
  let ?d = "rd_unpack_data_reg (rdp s)" and ?k = "rd_unpack_idx_reg (rdp s)"
  have k: "?k < 8" "length ?d = 8" using ok by simp_all
  then have hd: "drop ?k ?d = ?d ! ?k # drop (Suc ?k) ?d" by (simp add: Cons_nth_drop_Suc)
  then have last: "?k = 7 \<Longrightarrow> drop 7 ?d = [?d ! 7]" using k by simp
  show "rd_taken c s @ rd_buffer (rd_ff False st (rd_tready c) (sch_ext c) s) = rd_buffer (rdp s) @ concat (rd_loaded c s)"
    using ok hd last
    by (cases "rd_state_reg (rdp s)")
      (auto simp: rd_taken_def rd_buffer_def rd_loaded_def rd_ff_def rd_unpack_def rd_axis_tdata_def sch_dma_rd_req_def Let_def)
  show "rd_unpack_idx_reg (rd_ff False st (rd_tready c) (sch_ext c) s) < RATIO
      \<and> length (rd_unpack_data_reg (rd_ff False st (rd_tready c) (sch_ext c) s)) = RATIO
      \<and> \<not> rd_clear_pending_reg (rd_ff False st (rd_tready c) (sch_ext c) s)"
    using ok assms(2) by (cases "rd_state_reg (rdp s)") (auto simp: rd_ff_def rd_unpack_def Let_def)
qed

lemma sched_step_ok: "paths_ok s \<Longrightarrow> undisturbed c \<Longrightarrow> paths_ok (sched_step c s)"
  using wr_step(2) [of s c] rd_step(2) [of s c "start_in c"] by (simp add: paths_ok_def sched_step_paths)

interpretation pack: fifo_stage sched_step paths_ok "\<lambda>c. undisturbed c" wr_padded "\<lambda>c s. concat (wr_emitted c s)" "\<lambda>s. wr_buffer (wrp s)"
  by unfold_locales (simp_all add: sched_step_ok wr_step(1) wr_padded_def sched_step_paths)

interpretation unpack: fifo_stage sched_step paths_ok "\<lambda>c. undisturbed c" "\<lambda>c s. concat (rd_loaded c s)" rd_taken "\<lambda>s. rd_buffer (rdp s)"
  by unfold_locales (simp_all add: sched_step_ok rd_step(1) sched_step_paths)

text \<open>C13: Payload integrity in the scheduler: take a run in which beats are packed and one in which words
  are read back, each starting and ending with nothing in its path, with any gaps and back-pressure,
  and let the words read be the words written. Then the beats the transmitter gets are the beats
  that came in, each packet filled up with zeros to whole words, in order.\<close>

theorem pack_unpack_roundtrip:
  assumes "paths_ok s" and "list_all undisturbed cs" and "paths_ok s'" and "list_all undisturbed cs'"
    and "wr_buffer (wrp s) = []" and "wr_buffer (wrp (fold sched_step cs s)) = []"
    and "rd_buffer (rdp s') = []" and "rd_buffer (rdp (fold sched_step cs' s')) = []"
    and "over_run sched_step rd_loaded cs' s' = over_run sched_step wr_emitted cs s"
  shows "over_run sched_step rd_taken cs' s' = over_run sched_step wr_padded cs s"
  using pack.run_drained [OF assms(1,2,5,6)] unpack.run_drained [OF assms(3,4,7,8)] assms(9)
  by (simp add: concat_over_run [symmetric])

text \<open>Two beats are packed into one word, and the word is read back.\<close>

definition idle_ext :: sch_in where
  "idle_ext = \<lparr>dma_tdata = 0, dma_tkeep = 0xFF, dma_tvalid = False, dma_tlast = False, dma_pkt_size = 16,
     sink_desc_ready = True, sink_axis_tready = True, sink_status = None, wr_desc_tready = True, wr_dma_status = None,
     rd_desc_tready = True, rd_dma_status = None, dma_rd_tvalid = False, dma_rd_tdata = replicate 8 0, dma_rd_tlast = False\<rparr>"

definition ctl :: "bool \<Rightarrow> sch_in \<Rightarrow> sch_ctl" where
  "ctl tready i = \<lparr>clear_in = False, retx_in = None, start_in = False, seq_in = 0, rd_tready = tready, sch_ext = i\<rparr>"

definition write_run :: "sch_ctl list" where
  "write_run = [ctl False (idle_ext\<lparr>dma_tvalid := True\<rparr>), ctl False (idle_ext\<lparr>dma_tvalid := True, dma_tdata := 11\<rparr>),
     ctl False idle_ext, ctl False (idle_ext\<lparr>dma_tvalid := True, dma_tdata := 22, dma_tlast := True\<rparr>), ctl False idle_ext]"

definition read_run :: "sch_ctl list" where
  "read_run = ctl False (idle_ext\<lparr>dma_rd_tvalid := True, dma_rd_tdata := [11, 22, 0, 0, 0, 0, 0, 0], dma_rd_tlast := True\<rparr>)
     # ctl False idle_ext # replicate 8 (ctl True idle_ext)"

definition reading :: sched where
  "reading = sched_reset\<lparr>rdp := rd_reset\<lparr>rd_state_reg := RD_DATA\<rparr>\<rparr>"

theorem pack_unpack_roundtrip_witness:
  "over_run sched_step rd_taken read_run reading = over_run sched_step wr_padded write_run sched_reset
   \<and> over_run sched_step wr_padded write_run sched_reset = [11, 22, 0, 0, 0, 0, 0, 0]"
proof -
  have c: "paths_ok sched_reset" "list_all undisturbed write_run" "paths_ok reading" "list_all undisturbed read_run"
      "wr_buffer (wrp sched_reset) = []" "wr_buffer (wrp (fold sched_step write_run sched_reset)) = []"
      "rd_buffer (rdp reading) = []" "rd_buffer (rdp (fold sched_step read_run reading)) = []"
      "over_run sched_step rd_loaded read_run reading = over_run sched_step wr_emitted write_run sched_reset"
    by code_simp+
  have "over_run sched_step wr_padded write_run sched_reset = [11, 22, 0, 0, 0, 0, 0, 0]" by code_simp
  with pack_unpack_roundtrip [OF c] show ?thesis by simp
qed

section \<open>What can be retransmitted\<close>

lemma nth_update_other: "xs ! j \<noteq> a \<Longrightarrow> y \<noteq> a \<Longrightarrow> xs[k := y] ! j \<noteq> a"
  by (metis list_update_beyond not_le nth_list_update)

lemma blk_next_state_done:
  assumes "tx_pkt_done s" and "\<not> retx_pending_reg s" and "length (blk_state s) = NUM_BLOCKS"
    and "rd_blk_idx_reg s < NUM_BLOCKS" and "j < NUM_BLOCKS"
  shows "blk_next_state i s ! j = BLK_SENT \<longleftrightarrow> j = rd_blk_idx_reg s"
  using assms
  by (auto simp: blk_next_state_def tx_pkt_done_def nth_list_update nth_update_other Let_def split: option.split)

text \<open>C20: When a live packet is finished and no retransmission is pending, its block is the only one kept
  for retransmission, whatever is in the other two: from then on a request is matched only if it
  asks for that very packet.\<close>

theorem only_last_packet_kept:
  assumes "tx_pkt_done s" and "\<not> retx_pending_reg s" and "length (blk_state s) = NUM_BLOCKS" and "rd_blk_idx_reg s < NUM_BLOCKS"
    and "\<not> clear_in c" and "\<not> start_in c"
  shows "retx_lookup seq (sched_step c s) =
    (if blk_seq s ! rd_blk_idx_reg s = seq then Some (rd_blk_idx_reg s) else None)"
proof -
  have st: "blk_state (sched_step c s) = blk_next_state (sch_ext c) s" "blk_seq (sched_step c s) = blk_seq s"
    using assms(5,6) by (simp_all add: sched_step_def sched_cycle_def sched_ff_def Let_def split: option.split sch_state_t.split)
  note sent = blk_next_state_done [OF assms(1-4), of _ "sch_ext c"]
  have "rd_blk_idx_reg s = 0 \<or> rd_blk_idx_reg s = 1 \<or> rd_blk_idx_reg s = 2" using assms(4) by linarith
  then show ?thesis
    by (auto simp: retx_lookup_def st sent upt_rec)
qed

definition three_sent :: sched where
  "three_sent = sched_reset\<lparr>blk_state := [BLK_SENT, BLK_READY, BLK_FILL], blk_seq := [4, 5, 0], rd_blk_idx_reg := 1,
     tx_rd_idx_reg := 1, sch_state_reg := SCH_READING, rdp := rd_reset\<lparr>rd_done_pulse := True\<rparr>\<rparr>"

theorem only_last_packet_kept_witness:
  "retx_lookup 4 three_sent = Some 0 \<and> retx_lookup 4 (sched_step (ctl False idle_ext) three_sent) = None
   \<and> retx_lookup 5 (sched_step (ctl False idle_ext) three_sent) = Some 1"
proof -
  have c: "tx_pkt_done three_sent" "\<not> retx_pending_reg three_sent" "length (blk_state three_sent) = NUM_BLOCKS"
      "rd_blk_idx_reg three_sent < NUM_BLOCKS" "\<not> clear_in (ctl False idle_ext)" "\<not> start_in (ctl False idle_ext)"
    by code_simp+
  have "blk_seq three_sent ! rd_blk_idx_reg three_sent = 5" "rd_blk_idx_reg three_sent = 1" "retx_lookup 4 three_sent = Some 0" by code_simp+
  with only_last_packet_kept [OF c] show ?thesis by simp
qed

end
