(* ===== verification/Rtl_Engine.thy ===== *)
theory Rtl_Engine
  imports Rtl_Tx Rtl_Sched
begin

text \<open>
  The protocol engine of the FPGA (\<open>rtl/ludp_protocol.sv\<close>): receiver, shared registers, scheduler and
  transmitter, wired as the module wires them. The DMA engine, the UDP stack and the multiplexer of
  the two output ports are inputs. Shown: a START command in the middle of a payload stops the data
  path for good, and a request for a retransmission sends something else under another number.
\<close>

section \<open>Wiring\<close>

record engine =
  e_rx :: rx
  e_proto :: proto
  e_sched :: sched
  e_tx :: tx

text \<open>The inputs of a cycle; the two signals of \<open>bus\<close> that come from inside are overwritten.\<close>

record env =
  bus :: rx_in
  dma :: sch_in
  udp_hdr_ready :: bool
  resp_tready :: bool
  data_tready :: bool

definition engine_reset :: engine where
  "engine_reset = \<lparr>e_rx = rx_reset, e_proto = proto_reset, e_sched = sched_reset, e_tx = tx_reset\<rparr>"

definition tx_wires :: "env \<Rightarrow> rx_out \<Rightarrow> engine \<Rightarrow> tx_in" where
  "tx_wires v c g =
     (let p = e_proto g; s = e_sched g
      in \<lparr>data_in_tdata = rd_axis_tdata (rdp s), data_in_tkeep = (if rd_unpack_valid_reg (rdp s) then 0xFF else 0),
          data_in_tvalid = rd_unpack_valid_reg (rdp s), data_in_tlast = rd_axis_tlast (rdp s),
          tx_ready_in = tx_pkt_ready s, sch_ready_in = sch_ready s, retx_found = retx_pending_reg s,
          rd_pkt_size = blk_size s ! tx_rd_idx_reg s, rd_pkt_seq = p_seq_num p,
          tx_udp_hdr_ready = udp_hdr_ready v, s0_tready = resp_tready v, s1_tready = data_tready v,
          resp_in = p_resp p, resp_ongoing = p_resp_ongoing p,
          window_ok = f2h_tx_ok (proto_abs p), cmd_start_req = rx_cmd_start_req c\<rparr>)"

definition engine_cycle :: "env \<Rightarrow> engine \<Rightarrow> engine" where
  "engine_cycle v g =
     (let c = rx_comb (bus v) (e_proto g) (e_rx g);
          ti = tx_wires v c g;
          i = (bus v)\<lparr>tx_resp_done := tx_resp_done_out ti (e_tx g), sch_tx_pkt_done := tx_pkt_done (e_sched g)\<rparr>
      in \<lparr>e_rx = rx_ff i (e_rx g), e_proto = proto_ff i c (e_proto g),
          e_sched = sched_cycle (rx_cmd_start_req c) (if rx_retx_req c then Some (rx_retx_seq c) else None)
            (tx_pkt_start ti (e_tx g)) (p_seq_num (e_proto g)) (data_in_tready ti (e_tx g)) (dma v) (e_sched g),
          e_tx = tx_ff ti (e_tx g)\<rparr>)"

text \<open>The beats that leave on the data port in one cycle, and in a run.\<close>

definition data_beats :: "env \<Rightarrow> engine \<Rightarrow> (64 word \<times> bool) list" where
  "data_beats v g = sent1 (tx_wires v (rx_comb (bus v) (e_proto g) (e_rx g)) g) (e_tx g)"

fun engine_sends :: "env list \<Rightarrow> engine \<Rightarrow> (64 word \<times> bool) list" where
  "engine_sends [] g = []"
| "engine_sends (v # vs) g = data_beats v g @ engine_sends vs (engine_cycle v g)"

text \<open>The signals of a cycle by name.\<close>

definition comb_of :: "env \<Rightarrow> engine \<Rightarrow> rx_out" where
  "comb_of v g = rx_comb (bus v) (e_proto g) (e_rx g)"

definition wires_of :: "env \<Rightarrow> engine \<Rightarrow> tx_in" where
  "wires_of v g = tx_wires v (comb_of v g) g"

lemma engine_cycle_tx: "e_tx (engine_cycle v g) = tx_ff (wires_of v g) (e_tx g)"
  by (simp add: engine_cycle_def wires_of_def comb_of_def Let_def)

lemma engine_cycle_sched:
  "e_sched (engine_cycle v g) = sched_cycle (rx_cmd_start_req (comb_of v g))
     (if rx_retx_req (comb_of v g) then Some (rx_retx_seq (comb_of v g)) else None)
     (tx_pkt_start (wires_of v g) (e_tx g)) (p_seq_num (e_proto g)) (data_in_tready (wires_of v g) (e_tx g)) (dma v) (e_sched g)"
  by (simp add: engine_cycle_def wires_of_def comb_of_def Let_def)

lemma sched_cycle_rdp: "rdp (sched_cycle clear retx st seq tready i s) = rd_ff clear st tready i s"
  by (simp add: sched_cycle_def)

section \<open>The engine and the packet-level model\<close>

text \<open>The receiver's inputs in a cycle, with the two signals from inside.\<close>

definition rx_wires :: "env \<Rightarrow> engine \<Rightarrow> rx_in" where
  "rx_wires v g = (bus v)\<lparr>tx_resp_done := tx_resp_done_out (wires_of v g) (e_tx g), sch_tx_pkt_done := tx_pkt_done (e_sched g)\<rparr>"

fun rx_inputs :: "env list \<Rightarrow> engine \<Rightarrow> rx_in list" where
  "rx_inputs [] g = []"
| "rx_inputs (v # vs) g = rx_wires v g # rx_inputs vs (engine_cycle v g)"

lemma engine_cycle_rtl: "(e_rx (engine_cycle v g), e_proto (engine_cycle v g)) = rtl_cycle (rx_wires v g) (e_rx g, e_proto g)"
proof -
  have "rx_pkt_complete (rx_wires v g) s = rx_pkt_complete (bus v) s" for s
    by (simp add: rx_wires_def rx_pkt_complete_def)
  then have "rx_comb (rx_wires v g) p s = rx_comb (bus v) p s" for p s
    by (simp add: rx_comb_def Let_def) (simp add: rx_wires_def)
  then show ?thesis by (simp add: engine_cycle_def rtl_cycle_def rx_wires_def wires_of_def comb_of_def Let_def)
qed

lemma engine_rtl:
  "(e_rx (fold engine_cycle vs g), e_proto (fold engine_cycle vs g)) = fold rtl_cycle (rx_inputs vs g) (e_rx g, e_proto g)"
proof (induction vs arbitrary: g)
  case (Cons v vs)
  show ?case by (simp add: Cons engine_cycle_rtl [symmetric])
qed simp

text \<open>A live packet is started only inside the window, and its header has the live number.\<close>

lemma live_packet_in_window:
  assumes "tx_state_reg (e_tx g) = TX_IDLE" and "tx_state_reg (e_tx (engine_cycle v g)) = TX_DATA_HDR"
    and "\<not> retx_pending_reg (e_sched g)"
  shows "f2h_tx_ok (proto_abs (e_proto g)) \<and> tx_header_beat0_reg (e_tx (engine_cycle v g)) = beat0 (p_seq_num (e_proto g)) 0 TYPE_DATA"
  using assms
  by (simp add: engine_cycle_tx tx_ff_def tx_fsm_def tx_reset_def starts_data_def wires_of_def tx_wires_def Let_def
      split: if_splits)

text \<open>C11: The whole engine and the packet-level model of its registers: whatever scheduler, DMA engine and
  transmitter do, after any cycles from reset in which complete packets have two beats, the sequence
  number, credit limit, enable bit and pending response are those of the packet-level model, fed
  with the packets on the bus and the completions of the transmitter and the scheduler.\<close>

theorem engine_refines_packets:
  assumes "framed (rx_inputs vs engine_reset) Between"
  shows "proto_abs (e_proto (fold engine_cycle vs engine_reset)) = fpga_trace (rx_inputs vs engine_reset) Between fpga_reset"
  using rtl_run_refines [OF assms] engine_rtl [of vs engine_reset]
  by (metis engine.select_convs(1,2) engine_reset_def rtl_run_def snd_conv)

section \<open>START in the middle of a payload\<close>

text \<open>The read path holds a word, and the transmitter will not take it.\<close>

definition wedged :: "engine \<Rightarrow> bool" where
  "wedged g \<longleftrightarrow> tx_state_reg (e_tx g) \<in> {TX_IDLE, TX_RESP} \<and> rd_unpack_valid_reg (rdp (e_sched g))
     \<and> \<not> rd_done_pulse (rdp (e_sched g)) \<and> sch_state_reg (e_sched g) = SCH_IDLE \<and> \<not> retx_pending_reg (e_sched g)
     \<and> length (blk_state (e_sched g)) = NUM_BLOCKS \<and> BLK_SENT \<notin> set (blk_state (e_sched g))"

lemma wedged_quiet: "wedged g \<Longrightarrow> data_beats v g = []"
  by (auto simp: wedged_def data_beats_def sent1_def port1_def)

lemma tx_state_idle_resp:
  assumes "tx_state_reg t \<in> {TX_IDLE, TX_RESP}" and "\<not> starts_data i"
  shows "tx_state_reg (tx_ff i t) \<in> {TX_IDLE, TX_RESP}"
  using assms by (auto simp: tx_ff_def tx_fsm_def tx_reset_def Let_def split: list.splits if_splits)

lemma rd_ff_stuck:
  assumes "rd_unpack_valid_reg (rdp s)" and "\<not> (tready \<and> rd_unpack_idx_reg (rdp s) = RATIO - 1)"
  shows "rd_unpack_valid_reg (rd_ff clear st tready i s) \<and> \<not> rd_done_pulse (rd_ff clear st tready i s)"
  using assms by (auto simp: rd_ff_def rd_unpack_def Let_def split: rd_state_t.splits)

lemma retx_lookup_none:
  assumes "length (blk_state s) = NUM_BLOCKS" and "BLK_SENT \<notin> set (blk_state s)"
  shows "retx_lookup seq s = None"
proof -
  have "blk_state s ! j \<noteq> BLK_SENT" if "j < 3" for j
    using that assms by (metis nth_mem)
  then show ?thesis by (simp add: retx_lookup_def upt_rec)
qed

lemma set_update_other: "x \<notin> set xs \<Longrightarrow> x \<noteq> y \<Longrightarrow> x \<notin> set (xs[k := y])"
  using set_update_subset_insert [of xs k y] by blast

lemma sched_cycle_wedged:
  assumes "sch_state_reg s = SCH_IDLE" and "\<not> retx_pending_reg s" and "length (blk_state s) = NUM_BLOCKS"
    and "BLK_SENT \<notin> set (blk_state s)" and "\<not> rd_done_pulse (rdp s)" and "\<not> st"
  shows "sch_state_reg (sched_cycle clear retx st seq tready i s) = SCH_IDLE
    \<and> \<not> retx_pending_reg (sched_cycle clear retx st seq tready i s)
    \<and> length (blk_state (sched_cycle clear retx st seq tready i s)) = NUM_BLOCKS
    \<and> BLK_SENT \<notin> set (blk_state (sched_cycle clear retx st seq tready i s))"
proof -
  have b: "length (blk_next_state i s) = NUM_BLOCKS" "BLK_SENT \<notin> set (blk_next_state i s)"
    using assms(3-5) by (auto simp: blk_next_state_def Let_def set_update_other split: option.splits)
  show ?thesis
    using assms b retx_lookup_none [OF assms(3,4)]
    by (simp add: sched_cycle_def sched_clear_def sched_ff_def Let_def split: option.splits)
qed

lemma wedged_step:
  assumes "wedged g"
  shows "wedged (engine_cycle v g)"
proof -
  let ?ti = "wires_of v g"
  note w = assms [unfolded wedged_def]
  have busy: "rd_busy (e_sched g)" using w by (simp add: rd_busy_def)
  then have s: "\<not> starts_data ?ti" "\<not> tx_pkt_start ?ti (e_tx g)" "\<not> data_in_tready ?ti (e_tx g)"
    using w by (auto simp: wires_of_def tx_wires_def sch_ready_def tx_pkt_start_def data_in_tready_def starts_data_def Let_def)
  have "tx_state_reg (e_tx (engine_cycle v g)) \<in> {TX_IDLE, TX_RESP}"
    unfolding engine_cycle_tx using w s(1) by (intro tx_state_idle_resp) auto
  moreover have "rd_unpack_valid_reg (rdp (e_sched (engine_cycle v g))) \<and> \<not> rd_done_pulse (rdp (e_sched (engine_cycle v g)))"
    unfolding engine_cycle_sched sched_cycle_rdp using w s(3) by (intro rd_ff_stuck) auto
  moreover have "sch_state_reg (e_sched (engine_cycle v g)) = SCH_IDLE
    \<and> \<not> retx_pending_reg (e_sched (engine_cycle v g)) \<and> length (blk_state (e_sched (engine_cycle v g))) = NUM_BLOCKS
    \<and> BLK_SENT \<notin> set (blk_state (e_sched (engine_cycle v g)))"
    unfolding engine_cycle_sched using w s(2) by (intro sched_cycle_wedged) auto
  ultimately show ?thesis by (simp add: wedged_def)
qed

lemma wedged_forever: "wedged g \<Longrightarrow> engine_sends vs g = []"
  by (induction vs arbitrary: g) (simp_all add: wedged_quiet wedged_step)

lemma start_wedges:
  assumes "rx_cmd_start_req (comb_of v g)" and "rd_unpack_valid_reg (rdp (e_sched g))"
    and "\<not> (data_in_tready (wires_of v g) (e_tx g) \<and> rd_unpack_idx_reg (rdp (e_sched g)) = RATIO - 1)"
  shows "wedged (engine_cycle v g)"
proof -
  have "tx_state_reg (e_tx (engine_cycle v g)) = TX_IDLE"
    using assms(1) by (simp add: engine_cycle_tx tx_ff_def wires_of_def tx_wires_def tx_reset_def Let_def)
  moreover have "rd_unpack_valid_reg (rdp (e_sched (engine_cycle v g))) \<and> \<not> rd_done_pulse (rdp (e_sched (engine_cycle v g)))"
    unfolding engine_cycle_sched sched_cycle_rdp by (rule rd_ff_stuck [OF assms(2,3)])
  ultimately show ?thesis
    using assms(1) by (simp add: wedged_def engine_cycle_sched sched_cycle_def sched_clear_def)
qed

text \<open>C18: A START command that is decoded while the read path holds a word of a packet, and its last lane
  is not taken in this very cycle, stops the data path for good: whatever happens in the cycles
  after it, commands (START again included), credits, requests for retransmission, DMA traffic and
  back-pressure alike, not a single beat leaves on the data port. Only a reset ends it.\<close>

theorem start_during_payload_wedges:
  assumes "rx_cmd_start_req (comb_of v g)" and "rd_unpack_valid_reg (rdp (e_sched g))"
    and "\<not> (data_in_tready (wires_of v g) (e_tx g) \<and> rd_unpack_idx_reg (rdp (e_sched g)) = RATIO - 1)"
  shows "engine_sends vs (engine_cycle v g) = []"
  by (rule wedged_forever [OF start_wedges [OF assms]])

text \<open>From reset: START and its answer, a credit, one packet of eight bytes through the DMA engine, and
  the transmission under way, with its first word in the read path.\<close>

definition no_dma :: sch_in where
  "no_dma = idle_ext\<lparr>dma_pkt_size := 8\<rparr>"

definition quiet_env :: env where
  "quiet_env = \<lparr>bus = no_in, dma = no_dma, udp_hdr_ready = True, resp_tready = True, data_tready = True\<rparr>"

definition on_bus :: "rx_in \<Rightarrow> env" where
  "on_bus i = quiet_env\<lparr>bus := i\<rparr>"

definition start_envs :: "env list" where
  "start_envs = [on_bus header_in, on_bus (beat_in (beat0 1 0 TYPE_CMD) False), on_bus (beat_in (beat1 0 0 1) True),
     quiet_env, quiet_env, quiet_env]"

definition load_envs :: "env list" where
  "load_envs =
     [(on_bus header_in)\<lparr>dma := no_dma\<lparr>dma_tvalid := True\<rparr>\<rparr>,
      (on_bus (beat_in (beat0 256 0 TYPE_CREDIT) False))\<lparr>dma := no_dma\<lparr>dma_tvalid := True, dma_tlast := True, dma_tdata := 11\<rparr>\<rparr>,
      on_bus (beat_in (beat1 0 0 0) True), quiet_env,
      quiet_env\<lparr>dma := no_dma\<lparr>wr_dma_status := Some (0, 0)\<rparr>\<rparr>]"

definition send_envs :: "env list" where
  "send_envs = [quiet_env, quiet_env, quiet_env\<lparr>dma := no_dma\<lparr>dma_rd_tvalid := True, dma_rd_tdata := 11 # replicate 7 0, dma_rd_tlast := True\<rparr>\<rparr>]"

definition restart_envs :: "env list" where
  "restart_envs = [on_bus header_in, on_bus (beat_in (beat0 2 0 TYPE_CMD) False)]"

definition busy_engine :: engine where
  "busy_engine = fold engine_cycle (start_envs @ load_envs @ send_envs @ restart_envs) engine_reset"

theorem engine_refines_packets_witness:
  "proto_abs (e_proto (fold engine_cycle (start_envs @ load_envs @ send_envs) engine_reset))
     = fpga_trace (rx_inputs (start_envs @ load_envs @ send_envs) engine_reset) Between fpga_reset
   \<and> p_credit_limit (e_proto (fold engine_cycle (start_envs @ load_envs @ send_envs) engine_reset)) = 256"
proof -
  have f: "framed (rx_inputs (start_envs @ load_envs @ send_envs) engine_reset) Between" by code_simp
  have "p_credit_limit (e_proto (fold engine_cycle (start_envs @ load_envs @ send_envs) engine_reset)) = 256" by code_simp
  with engine_refines_packets [OF f] show ?thesis by blast
qed

theorem start_during_payload_wedges_witness:
  "engine_sends (start_envs @ load_envs @ send_envs @ restart_envs) engine_reset =
     [(beat0 0 0 TYPE_DATA, False), (beat1 0 0 8, False), (11, False), (0, False)]
   \<and> engine_sends (start_envs @ load_envs @ send_envs @ replicate 20 quiet_env)
       (engine_cycle (on_bus (beat_in (beat1 0 0 1) True)) busy_engine) = []"
proof -
  let ?v = "on_bus (beat_in (beat1 0 0 1) True)"
  have "rx_cmd_start_req (comb_of ?v busy_engine) \<and> rd_unpack_valid_reg (rdp (e_sched busy_engine))
      \<and> rd_unpack_idx_reg (rdp (e_sched busy_engine)) \<noteq> RATIO - 1" by code_simp
  then have c: "rx_cmd_start_req (comb_of ?v busy_engine)" "rd_unpack_valid_reg (rdp (e_sched busy_engine))"
      "\<not> (data_in_tready (wires_of ?v busy_engine) (e_tx busy_engine) \<and> rd_unpack_idx_reg (rdp (e_sched busy_engine)) = RATIO - 1)"
    by simp_all
  have "engine_sends (start_envs @ load_envs @ send_envs @ restart_envs) engine_reset =
     [(beat0 0 0 TYPE_DATA, False), (beat1 0 0 8, False), (11, False), (0, False)]" by code_simp
  with start_during_payload_wedges [OF c] show ?thesis by simp
qed

section \<open>Requests for retransmission\<close>

text \<open>C19: A request for the retransmission of block \<open>k\<close>, once it is scheduled: the transmitter starts a
  data packet whose header has the number of the next live packet and the size of the next block to
  send, and the descriptor of the read names that block, not \<open>k\<close>. The window is not consulted.\<close>

theorem retransmission_sends_next_block:
  assumes "retx_pending_reg (e_sched g)" and "sch_state_reg (e_sched g) = SCH_IDLE" and "\<not> rd_busy (e_sched g)"
    and "tx_state_reg (e_tx g) = TX_IDLE" and "\<not> p_resp_ongoing (e_proto g)" and "\<not> rx_cmd_start_req (comb_of v g)"
  defines "s \<equiv> e_sched g" and "g' \<equiv> engine_cycle v g"
  shows "tx_state_reg (e_tx g') = TX_DATA_HDR
    \<and> tx_header_beat0_reg (e_tx g') = beat0 (p_seq_num (e_proto g)) 0 TYPE_DATA
    \<and> tx_header_beat1_reg (e_tx g') = beat1 0 0 (blk_size s ! tx_rd_idx_reg s)
    \<and> rd_state_reg (rdp (e_sched g')) = RD_DESC \<and> sch_is_retx_reg (e_sched g')
    \<and> rd_blk_idx_reg (e_sched g') = retx_pending_idx_reg s
    \<and> desc_tag (rd_desc (e_sched g')) = tx_rd_idx_reg (e_sched g')"
proof -
  have ti: "retx_found (wires_of v g)" "\<not> resp_ongoing (wires_of v g)" "\<not> cmd_start_req (wires_of v g)"
      "rd_pkt_seq (wires_of v g) = p_seq_num (e_proto g)" "rd_pkt_size (wires_of v g) = blk_size s ! tx_rd_idx_reg s"
    using assms by (simp_all add: wires_of_def tx_wires_def Let_def)
  have tx: "tx_state_reg (e_tx g') = TX_DATA_HDR"
      "tx_header_beat0_reg (e_tx g') = beat0 (p_seq_num (e_proto g)) 0 TYPE_DATA"
      "tx_header_beat1_reg (e_tx g') = beat1 0 0 (blk_size s ! tx_rd_idx_reg s)"
    using assms(4) ti by (simp_all add: g'_def engine_cycle_tx tx_ff_def tx_fsm_def starts_data_def Let_def)
  have rd: "rd_state_reg (rdp (e_sched g')) = RD_DESC"
    using assms(1-3) by (simp add: g'_def engine_cycle_sched sched_cycle_rdp rd_ff_def sch_dma_rd_req_def rd_busy_def rd_unpack_def Let_def)
  have sch: "\<not> retx_pending_reg (e_sched g')" "sch_is_retx_reg (e_sched g')" "rd_blk_idx_reg (e_sched g') = retx_pending_idx_reg s"
    using assms(1-3,6) by (simp_all add: g'_def s_def engine_cycle_sched sched_cycle_def sched_ff_def Let_def)
  with tx rd show ?thesis by (simp add: rd_desc_def sch_target_blk_def)
qed

text \<open>The packet is sent completely, and then a NACK for its number, 0, arrives.\<close>

definition nack_engine :: engine where
  "nack_engine = fold engine_cycle (start_envs @ load_envs @ send_envs @ replicate 10 quiet_env
     @ [on_bus header_in, on_bus (beat_in (beat0 0 0 TYPE_NACK) False), on_bus (beat_in (beat1 0 0 1) True)]) engine_reset"

theorem retransmission_sends_next_block_witness:
  "blk_seq (e_sched nack_engine) ! retx_pending_idx_reg (e_sched nack_engine) = 0
   \<and> tx_header_beat0_reg (e_tx (engine_cycle quiet_env nack_engine)) = beat0 1 0 TYPE_DATA
   \<and> desc_tag (rd_desc (e_sched (engine_cycle quiet_env nack_engine))) = 1"
proof -
  have "retx_pending_reg (e_sched nack_engine) \<and> sch_state_reg (e_sched nack_engine) = SCH_IDLE \<and> \<not> rd_busy (e_sched nack_engine)
      \<and> tx_state_reg (e_tx nack_engine) = TX_IDLE \<and> \<not> p_resp_ongoing (e_proto nack_engine) \<and> \<not> rx_cmd_start_req (comb_of quiet_env nack_engine)
      \<and> blk_seq (e_sched nack_engine) ! retx_pending_idx_reg (e_sched nack_engine) = 0 \<and> p_seq_num (e_proto nack_engine) = 1
      \<and> tx_rd_idx_reg (e_sched (engine_cycle quiet_env nack_engine)) = 1" by code_simp
  then have c: "retx_pending_reg (e_sched nack_engine)" "sch_state_reg (e_sched nack_engine) = SCH_IDLE" "\<not> rd_busy (e_sched nack_engine)"
      "tx_state_reg (e_tx nack_engine) = TX_IDLE" "\<not> p_resp_ongoing (e_proto nack_engine)" "\<not> rx_cmd_start_req (comb_of quiet_env nack_engine)"
      "blk_seq (e_sched nack_engine) ! retx_pending_idx_reg (e_sched nack_engine) = 0" "p_seq_num (e_proto nack_engine) = 1"
      "tx_rd_idx_reg (e_sched (engine_cycle quiet_env nack_engine)) = 1" by blast+
  show ?thesis using retransmission_sends_next_block [OF c(1-6)] c(7-9) by simp
qed

end
