(* ===== verification/Spec2Isabelle.thy ===== *)
theory Spec2Isabelle
  imports Ludp_App Ludp_Stream Ludp_Race Dpi_Link Coverage_Print Rtl_Engine
begin

text \<open>
  Verification of a lightweight UDP data-acquisition protocol (LUDP): its host software, and the
  protocol engine of the FPGA it talks to.

  \<^bold>\<open>The program.\<close> An FPGA streams numbered data packets over UDP; a Python host reorders them, hands
  them to an application and controls the stream with commands and credits. The host is the class
  \<open>LudpHost\<close> (\<open>sw/ludp_host.py\<close>): a receive thread (\<open>_recv_loop\<close>, \<open>_handle_data\<close>,
  \<open>_handle_cmd_ack\<close>, \<open>_handle_cmd_cpl\<close>), a poll thread (\<open>_poll_loop\<close>) and commands issued by
  the main thread (\<open>send_start\<close>, \<open>send_stop\<close>, \<open>read_reg\<close>, \<open>write_reg\<close>); two applications use it
  (\<open>run_logger\<close>, \<open>run_interactive\<close>). Two more scripts feed frames to a simulation of the FPGA, over
  a stream socket (\<open>sw/ludp_host_dpi.py\<close> and \<open>tb/dpi_socket.c\<close>) or a file
  (\<open>sw/ludp_host_fifo.py\<close> and \<open>tb/dpi_fifo.c\<close>); a third one reports simulation coverage
  (\<open>tb/coverage_report.py\<close>). On the FPGA, \<open>rtl/ludp_protocol.sv\<close> joins a receiver for commands,
  credits and requests for retransmission, a scheduler that moves packets through memory, and a
  transmitter.

  \<^bold>\<open>The theories.\<close>
  \<^item> \<open>Prelude\<close>: Python's exceptions, results and outcomes (an exception next to the state as the code
    left it), slices, dictionaries as association lists, and the locale \<open>dictionary\<close>.
  \<^item> \<open>Py_Struct\<close>: \<open>struct.pack\<close> and \<open>struct.unpack\<close> for the formats used, the locales
    \<open>codec\<close> and \<open>exact_codec\<close>, and their interpretation on the model of \<open>struct\<close>.
  \<^item> \<open>Py_Heapq\<close>: \<open>heapq\<close> as the interpreter implements it, with the locale \<open>min_queue\<close> for a
    priority queue and \<open>indexed_queue\<close> for a queue that tracks the keys of a dictionary, both
    interpreted on the heap and the dictionary of the host.
  \<^item> \<open>Ludp_Wire\<close>: constants, \<open>LudpDataPacket\<close>, \<open>_build_cmd\<close>, \<open>_build_credit\<close>,
    \<open>_build_nack\<close>, the header parser, and the header registers of \<open>rtl/ludp_protocol_rx.sv\<close>.
  \<^item> \<open>Ludp_Fpga\<close>: the FPGA at packet level (\<open>rtl/ludp_protocol.sv\<close>, \<open>_rx.sv\<close>, \<open>_tx.sv\<close>):
    header beats as 64-bit words, the signed 32-bit window test, the reaction to commands and credits.
  \<^item> \<open>Ludp_Host\<close>: the state of \<open>LudpHost\<close> as the record \<open>host\<close>, \<open>LudpStats\<close>, and every
    operation of the receive thread as a function on that state.
  \<^item> \<open>Reorder_Spec\<close>: the abstract specification of reordering, a machine on the next number wanted
    and a finite map of early packets, and what it promises.
  \<^item> \<open>Ludp_Recv\<close>, \<open>Ludp_Loop\<close>: the receive path implements that machine (heap and dictionary stay in
    step, no pop raises); whole runs of the loop; its exceptions; the FPGA and the host understand
    each other's packets.
  \<^item> \<open>Ludp_Poll\<close>: the poll thread; the relation \<open>progress\<close>, what one step of either thread may do to
    the host; stalls end; the keep-alive.
  \<^item> \<open>Ludp_Cmd\<close>: commands with retries and the command table, alone and against the FPGA.
  \<^item> \<open>Ludp_System\<close>: host threads, FPGA and an unreliable network as a step relation; the locale
    \<open>host_thread\<close>, the contract of a thread, interpreted on the receive thread, the poll thread and
    the initial credit; invariants of all reachable states.
  \<^item> \<open>Ludp_Race\<close>: the in-order branch split at its unlocked point.
  \<^item> \<open>Ludp_Threads\<close>: the threads as a sequence of events; the relation \<open>move\<close> of elementary changes, and the
    locales \<open>thread_invariant\<close> and \<open>client_invariant\<close> for what threads and commands keep, interpreted for
    the start time, the window, the credit, the command ids and the types of the fields.
  \<^item> \<open>Ludp_Stream\<close>: host and FPGA in rounds over a network that loses nothing.
  \<^item> \<open>Ludp_App\<close>: the logger, the shell and the program.
  \<^item> \<open>Rtl_Rx\<close>, \<open>Rtl_Tx\<close>, \<open>Rtl_Sched\<close>, \<open>Rtl_Engine\<close>: the receiver with the shared registers, the
    transmitter, the scheduler (with the locale \<open>fifo_stage\<close>, interpreted on its packing and its
    unpacking path) and their wiring, clock by clock; each cycle is a function of registers and inputs.
  \<^item> \<open>Frames\<close>, \<open>Fifo_Link\<close>, \<open>Dpi_Link\<close>: the Internet checksum, the raw frames, and the two links
    with their C readers.
  \<^item> \<open>Py_Text\<close>: strings, \<open>int\<close>, \<open>str\<close> and the string methods the scripts use.
  \<^item> \<open>Coverage_Report\<close>, \<open>Coverage_Print\<close>: the names of files and the counts; totals, line ranges,
    summary and the script as a whole.
  \<^item> This theory: the first window of an acquisition, across host and FPGA.

  \<^bold>\<open>What is shown.\<close> In-order, exactly-once delivery for every order, loss and duplication of
  datagrams, by refinement of \<open>Reorder_Spec\<close>; strictly increasing delivery and window-bounded
  buffering for every interleaving of threads, commands and FPGA steps over a network that loses,
  repeats and reorders; termination of stalls; a lossless stream never blocks when the window covers
  the credit interval; the results of commands on every branch; all exceptions, and that none ends
  the logger; the types of the host's fields at all times; byte-exact agreement of the host's packets
  with the header registers and beats of the FPGA; the clocked engine as an implementation of the
  packet-level FPGA, exact frames under any back-pressure and payloads unchanged through packing and
  unpacking; checksums; round trips of the file and stream formats with the C readers; and the
  correctness of the coverage report. The theorems also pin down where the code departs from its
  documentation: the keep-alive after the first packet, the 32-bit limit of credits, the unlocked
  access that loses a packet, retransmissions that send another packet, a START that blocks the data
  path, one-beat packets, the start time lost by the reset, timeouts that end the receive
  thread, and the readers that lose data.

  \<^bold>\<open>Conventions and bounds.\<close> Python integers are unbounded; widths appear where the code packs them
  and in the FPGA's registers (machine words). Times are exact rationals. Loops are total functions:
  those of the code end, or run over the finite list of inputs a theorem quantifies over (datagrams,
  wake-up times, command lines), so no fuel is needed. Threads interleave at the grain of one handled
  datagram, one poll iteration, one call, except in \<open>Ludp_Race\<close>. What other threads do while a call
  waits is an argument of that call. Flow control is shown for credits below \<open>2\<^sup>31\<close>, where the
  FPGA's signed comparison is the comparison of numbers.

  In the clocked theories the parameters of the RTL have the values of \<open>rtl/fpga_core.sv\<close> (three blocks
  of 16384 bytes, a 64-bit bus, 512-bit memory words); runs start at reset, and the inputs of each
  cycle are arbitrary unless a theorem restricts them.

  \<^bold>\<open>Not modelled.\<close> Socket options, the parsing of command lines, printed text and debug output;
  exceptions raised by the application's callback; the DMA engine, the stream multiplexer and the UDP
  stack behind the protocol engine, which are inputs, and \<open>rtl/ludp_tx_buffer.sv\<close>, which it does not
  instantiate; the contents of test scripts loaded at run time, which are an argument; the receivers
  written in C and the RTL libraries.
\<close>

section \<open>An acquisition from START to the end of the first window\<close>

text \<open>The FPGA sends as long as it may.\<close>

fun fpga_burst :: "bytes list \<Rightarrow> fpga \<Rightarrow> bytes list \<times> fpga" where
  "fpga_burst [] f = ([], f)"
| "fpga_burst (pl # pls) f = (case fpga_send pl f of
     None \<Rightarrow> ([], f)
   | Some (d, f1) \<Rightarrow> (case fpga_burst pls f1 of (ds, f2) \<Rightarrow> (d # ds, f2)))"

lemma fpga_send_open:
  assumes "f2h_tx_enabled_reg f" and "0 \<le> a" "a < 2 ^ 31" "0 \<le> w" "w < 2 ^ 31"
    and "seq_num_reg f = word_of_int a" and "credit_limit_reg f = word_of_int w"
  shows "fpga_send pl f = (if a < w then Some (fpga_data_packet (word_of_int a) (word_of_nat (length pl)) pl,
     f\<lparr>seq_num_reg := word_of_int (a + 1)\<rparr>) else None)"
  using sint_diff_small [OF assms(4,5,2,3)] assms(1,6,7) by (simp add: fpga_send_def f2h_tx_ok_def)

lemma fpga_burst_open:
  assumes "f2h_tx_enabled_reg f" and "0 \<le> a" "a \<le> w" "w < 2 ^ 31"
    and "seq_num_reg f = word_of_int a" and "credit_limit_reg f = word_of_int w"
  shows "fst (fpga_burst pls f) = map (\<lambda>i. fpga_data_packet (word_of_int (a + int i)) (word_of_nat (length (pls ! i))) (pls ! i))
     [0..<min (length pls) (nat (w - a))]"
  using assms
proof (induction pls arbitrary: f a)
  case (Cons pl pls)
  note send = fpga_send_open [of f a w pl]
  show ?case
  proof (cases "a < w")
    case True
    let ?f = "f\<lparr>seq_num_reg := word_of_int (a + 1)\<rparr>"
    have "fst (fpga_burst pls ?f) = map (\<lambda>i. fpga_data_packet (word_of_int (a + 1 + int i)) (word_of_nat (length (pls ! i))) (pls ! i))
        [0..<min (length pls) (nat (w - (a + 1)))]"
      using Cons.prems True by (intro Cons.IH) auto
    moreover have "min (length (pl # pls)) (nat (w - a)) = Suc (min (length pls) (nat (w - (a + 1))))"
      using True by (simp add: Suc_nat_eq_nat_zadd1)
    ultimately show ?thesis
      using send Cons.prems True by (simp add: split_beta map_upt_Suc add.assoc del: upt_Suc)
  next
    case False
    with send Cons.prems show ?thesis by simp
  qed
qed simp

text \<open>C10: The first credit opens exactly one window. With an FPGA that has executed START, the credit the
  host sends first lets it transmit the next \<open>w\<close> packets, numbered from 0, and not one more.\<close>

theorem first_credit_opens_window:
  assumes "f2h_tx_enabled_reg f" and "seq_num_reg f = 0" and "credit_limit_reg f = 0"
    and "build_credit w = Inr pkt" and "w < 2 ^ 31"
  shows "fst (fpga_burst pls (fpga_recv pkt f)) =
     map (\<lambda>i. fpga_data_packet (word_of_nat i) (word_of_nat (length (pls ! i))) (pls ! i)) [0..<min (length pls) (nat w)]"
proof -
  have pk: "struct_pack Little header_fmt [LUDP_MAGIC, PKT_CREDIT, 0, w, 0, 0, 0] = Inr pkt"
    using assms(4) by (simp add: build_credit_def)
  have w: "0 \<le> w" using header_bytes(8) [OF pk] .
  have lim: "credit_limit_reg (fpga_recv pkt f) = word_of_int w"
    using sint_diff_small [of w 0] w assms(3,5) by (auto simp: fpga_recv_header [OF pk] ludp_consts)
  have "f2h_tx_enabled_reg (fpga_recv pkt f)" "seq_num_reg (fpga_recv pkt f) = word_of_int 0"
    using assms(1,2) by (simp_all add: fpga_recv_header [OF pk] ludp_consts)
  from fpga_burst_open [OF this(1) _ w assms(5) this(2) lim] show ?thesis
    by simp
qed

theorem first_credit_opens_window_witness:
  "\<exists>pkt. build_credit 2 = Inr pkt \<and>
     fst (fpga_burst [[1], [2], [3]] (fpga_recv pkt (fpga_reset\<lparr>f2h_tx_enabled_reg := True\<rparr>))) =
     map (\<lambda>i. fpga_data_packet (word_of_nat i) (word_of_nat (length ([[1], [2], [3]] ! i))) ([[1], [2], [3]] ! i))
       [0..<min (length [[1], [2], [3 :: byte]]) (nat 2)]"
proof -
  obtain pkt where "build_credit 2 = Inr pkt" using build_credit_ok [of 2] by auto
  with first_credit_opens_window [of "fpga_reset\<lparr>f2h_tx_enabled_reg := True\<rparr>" 2 pkt "[[1], [2], [3]]"] show ?thesis
    by (simp add: fpga_reset_def)
qed

end
